theory Spec2Isabelle
  imports Complex_Main
begin

section \<open>JavaScript strings\<close>

text \<open>
  A JavaScript string is modelled as \<^typ>\<open>string\<close>, a list of code units; \<open>length\<close> is the
  source's \<open>.length\<close>. The code units covered are those of the range U+0000 to U+00FF.
\<close>

definition NL :: char where
  "NL = CHR 0x0A"

text \<open>The class \<open>\s\<close> of a regular expression, which is also what \<open>trim\<close> strips.\<close>

definition isSpace :: "char \<Rightarrow> bool" where
  "isSpace c = (c = CHR 0x09 \<or> c = CHR 0x0A \<or> c = CHR 0x0B \<or> c = CHR 0x0C \<or> c = CHR 0x0D
     \<or> c = CHR 0x20 \<or> c = CHR 0xA0)"

text \<open>The class \<open>\w\<close>: letters, digits and the underscore.\<close>

definition isWord :: "char \<Rightarrow> bool" where
  "isWord c = (let n = (of_char c :: nat) in
     (97 \<le> n \<and> n \<le> 122) \<or> (65 \<le> n \<and> n \<le> 90) \<or> (48 \<le> n \<and> n \<le> 57) \<or> n = 95)"

definition startsWith :: "string \<Rightarrow> string \<Rightarrow> bool" where
  "startsWith s p = (take (length p) s = p)"

text \<open>\<open>s.slice(a, b)\<close> for \<open>0 \<le> a\<close> and \<open>0 \<le> b\<close>.\<close>

definition slice :: "string \<Rightarrow> nat \<Rightarrow> nat \<Rightarrow> string" where
  "slice s a b = take (b - a) (drop a s)"

definition trim :: "string \<Rightarrow> string" where
  "trim s = rev (dropWhile isSpace (rev (dropWhile isSpace s)))"

definition lowerChar :: "char \<Rightarrow> char" where
  "lowerChar c = (let n = (of_char c :: nat) in
     if (65 \<le> n \<and> n \<le> 90) \<or> (192 \<le> n \<and> n \<le> 222 \<and> n \<noteq> 215) then char_of (n + 32) else c)"

definition toLowerCase :: "string \<Rightarrow> string" where
  "toLowerCase s = map lowerChar s"

text \<open>\<open>text.split('\n')\<close>: the empty string splits into one empty line.\<close>

fun splitNL :: "string \<Rightarrow> string list" where
  "splitNL [] = [[]]"
| "splitNL (c # cs) =
     (if c = NL then [] # splitNL cs
      else (case splitNL cs of [] \<Rightarrow> [[c]] | l # ls \<Rightarrow> (c # l) # ls))"

text \<open>\<open>parts.join(sep)\<close>.\<close>

fun joinWith :: "string \<Rightarrow> string list \<Rightarrow> string" where
  "joinWith sep [] = []"
| "joinWith sep [x] = x"
| "joinWith sep (x # y # ys) = x @ sep @ joinWith sep (y # ys)"

text \<open>A non-negative integer in a template literal.\<close>

fun showDigits :: "nat \<Rightarrow> nat \<Rightarrow> string" where
  "showDigits 0 n = []"
| "showDigits (Suc fuel) n =
     (if n < 10 then [char_of (48 + n)]
      else showDigits fuel (n div 10) @ [char_of (48 + n mod 10)])"

definition showNat :: "nat \<Rightarrow> string" where
  "showNat n = showDigits (Suc n) n"

section \<open>JavaScript numbers\<close>

text \<open>
  A number is a \<^typ>\<open>real\<close>, or \<open>None\<close> for NaN; the infinities are not covered. \<open>jsGe\<close> is
  \<open>a >= b\<close>: it reads both operands as numbers, and is false when either is NaN.
\<close>

type_synonym jsNumber = "real option"

definition jsGe :: "jsNumber \<Rightarrow> jsNumber \<Rightarrow> bool" where
  "jsGe a b = (case a of None \<Rightarrow> False | Some x \<Rightarrow> (case b of None \<Rightarrow> False | Some y \<Rightarrow> x \<ge> y))"

section \<open>Data model (types)\<close>

record ContractDeployment =
  txHash :: string
  contractAddress :: string
  deployer :: string
  blockNumber :: int
  timestamp :: int
  bytecodeSize :: real

record ContractSource =
  src_contractAddress :: string
  src_contractName :: string
  src_compilerVersion :: string
  sourceCode :: string
  abi :: string
  constructorArguments :: string
  optimizationUsed :: bool
  runs :: "int option"
  evmVersion :: string
  library :: string
  licenseType :: string
  isProxy :: bool
  implementationAddress :: "string option"

datatype Risk = risk_critical | risk_high | risk_medium | risk_low | risk_none

text \<open>
  A finding is an object of the array that \<open>JSON.parse\<close> returns, cast to
  \<open>SolidityFinding[]\<close> and validated nowhere. The code reads two of its fields. It compares
  \<open>severity\<close> with the four literals by \<open>===\<close>: the field is the string it holds, which
  need not be one of the four (a value that is not a string compares like a string that
  is none of them). It compares \<open>confidence\<close> with the threshold by \<open>>=\<close>: the field is the
  number this comparison reads from it, NaN when the field is missing. The other fields
  are carried to the report as they are.
\<close>

record SolidityFinding =
  f_type :: string
  severity :: string
  line :: int
  description :: string
  suggestion :: string
  cweId :: "string option"
  confidence :: jsNumber
  category :: string

text \<open>
  An element of the parsed array: \<open>null\<close>, an object, or a value of another kind (a
  number, a string, a boolean, an array), on which the read of \<open>confidence\<close> gives
  \<open>undefined\<close>.
\<close>

datatype JsonElement = JsonNull | JsonObject SolidityFinding | JsonOther

record AuditReport =
  rep_id :: string
  rep_contractAddress :: string
  rep_contractName :: string
  deploymentTxHash :: string
  rep_deployer :: string
  rep_blockNumber :: int
  deployedAt :: int
  auditedAt :: int
  sourceAvailable :: bool
  findings :: "SolidityFinding list"
  summary :: string
  overallRisk :: Risk
  analysisTimeMs :: int
  rep_compilerVersion :: "string option"
  sourceCodeHash :: "string option"

record MonitorState =
  lastProcessedBlock :: int
  isRunning :: bool
  contractsFound :: nat
  contractsAudited :: nat
  contractsSkipped :: nat
  startedAt :: int

text \<open>
  The configuration as the analysis and the audit read it. \<open>confidenceThreshold\<close> is
  \<open>parseFloat\<close> of an environment variable: NaN when the variable holds no number.
\<close>

record AppConfig =
  basescanApiKey :: string
  pollIntervalMs :: int
  maxConcurrentAnalyses :: nat
  confidenceThreshold :: jsNumber
  startBlock :: "int option"
  dataDir :: string

section \<open>The world outside the code\<close>

text \<open>
  The answers of the external services are parameters of the model. \<open>basescanApi\<close> is the
  decoded JSON body of the HTTP request for an address and an API key (\<open>None\<close>: the request
  or the decoding threw, or the 30 s timeout aborted it). \<open>jsonSources\<close> is \<open>JSON.parse\<close>
  of a source payload followed by the read of its \<open>sources\<close> field, as the list of file
  names and contents (\<open>None\<close>: the parse threw or the field is absent). \<open>llmResponse\<close> is
  the text the analyzer service answers for a contract name, a chunk and a compiler
  version (\<open>None\<close>: the request threw or timed out). \<open>jsonFindings\<close> is \<open>JSON.parse\<close> of
  the array found in that text, as the list of its elements (\<open>None\<close>: the parse threw). \<open>sha256hex\<close> is the SHA-256
  digest of a text in hexadecimal. \<open>fileWritable\<close> tells whether \<open>fs.writeFile\<close> succeeds on
  a file, given by its directory and its name.
\<close>

record BasescanContractResult =
  SourceCode :: string
  ABI :: string
  ContractName :: string
  CompilerVersion :: string
  OptimizationUsed :: string
  Runs :: string
  ConstructorArguments :: string
  EVMVersion :: string
  Library :: string
  LicenseType :: string
  Proxy :: string
  Implementation :: string

record BasescanResponse =
  status :: string
  message :: string
  result :: "BasescanContractResult list"

record Env =
  basescanApi :: "string \<Rightarrow> string \<Rightarrow> BasescanResponse option"
  jsonSources :: "string \<Rightarrow> (string \<times> string) list option"
  llmResponse :: "string \<Rightarrow> string \<Rightarrow> string \<Rightarrow> string option"
  jsonFindings :: "string \<Rightarrow> JsonElement list option"
  sha256hex :: "string \<Rightarrow> string"
  fileWritable :: "string \<times> string \<Rightarrow> bool"

text \<open>The values that differ from one invocation to the next: the UUID and the clock readings.\<close>

record Fresh =
  uuidv4 :: string
  dateNow :: "nat \<Rightarrow> int"

section \<open>storage.ts\<close>

text \<open>
  The two in-memory indexes and the data directory. A report file is keyed by its
  directory and file name and holds the report that was serialised into it.
  \<open>saveAudit\<close> sets the two indexes and then writes the file: it gives the store
  afterwards, and whether the write succeeded; when it did not, the promise of
  \<open>saveAudit\<close> rejects.
\<close>

record Store =
  auditsById :: "string \<rightharpoonup> AuditReport"
  auditsByAddress :: "string \<rightharpoonup> AuditReport"
  dataFiles :: "(string \<times> string) \<rightharpoonup> AuditReport"

definition saveAudit :: "Env \<Rightarrow> AuditReport \<Rightarrow> string \<Rightarrow> Store \<Rightarrow> Store \<times> bool" where
  "saveAudit env report dir st =
     (let st1 = st\<lparr>auditsById := (auditsById st)(rep_id report \<mapsto> report),
                   auditsByAddress :=
                     (auditsByAddress st)(toLowerCase (rep_contractAddress report) \<mapsto> report)\<rparr>;
          filePath = (dir, rep_id report @ ''.json'')
      in if fileWritable env filePath
         then (st1\<lparr>dataFiles := (dataFiles st1)(filePath \<mapsto> report)\<rparr>, True)
         else (st1, False))"

definition getAuditById :: "Store \<Rightarrow> string \<Rightarrow> AuditReport option" where
  "getAuditById st i = auditsById st i"

definition getAuditByAddress :: "Store \<Rightarrow> string \<Rightarrow> AuditReport option" where
  "getAuditByAddress st address = auditsByAddress st (toLowerCase address)"

section \<open>basescan.ts\<close>

subsection \<open>The rate limiter\<close>

text \<open>
  \<open>rateLimitWait\<close> runs in two synchronous pieces: the code up to the \<open>await\<close> of the timer
  (\<open>rateLimitEnter\<close>, which either lets the caller proceed or tells how long it sleeps), and
  the code after it (\<open>rateLimitResume\<close>, run when the timer fires, at the clock reading
  given). Clock readings are milliseconds.
\<close>

record Limiter =
  lastRequestTime :: int
  requestsThisSecond :: nat

definition limiterInit :: Limiter where
  "limiterInit = \<lparr>lastRequestTime = 0, requestsThisSecond = 0\<rparr>"

definition rateLimitEnter :: "Limiter \<Rightarrow> int \<Rightarrow> Limiter \<times> int option" where
  "rateLimitEnter l now =
     (let l1 = (if now - lastRequestTime l \<ge> 1000
                then l\<lparr>requestsThisSecond := 0, lastRequestTime := now\<rparr> else l)
      in if requestsThisSecond l1 \<ge> 5
         then (l1, Some (1000 - (now - lastRequestTime l1)))
         else (l1\<lparr>requestsThisSecond := requestsThisSecond l1 + 1\<rparr>, None))"

definition rateLimitResume :: "Limiter \<Rightarrow> int \<Rightarrow> Limiter" where
  "rateLimitResume l now =
     (let l1 = l\<lparr>requestsThisSecond := 0, lastRequestTime := now\<rparr>
      in l1\<lparr>requestsThisSecond := requestsThisSecond l1 + 1\<rparr>)"

text \<open>
  One call that nothing interleaves with, the timer firing exactly when it is due: the
  limiter afterwards and the time at which the caller proceeds.
\<close>

definition rateLimitWait :: "Limiter \<Rightarrow> int \<Rightarrow> Limiter \<times> int" where
  "rateLimitWait l now =
     (case rateLimitEnter l now of
        (l1, None) \<Rightarrow> (l1, now)
      | (l1, Some waitTime) \<Rightarrow> (rateLimitResume l1 (now + waitTime), now + waitTime))"

text \<open>
  A caller that makes its calls one after another: the k-th call is wanted at the k-th
  time of the list and is made then, or when the call before it has returned if that is
  later. For each call: the window it was counted in (the limiter's \<open>lastRequestTime\<close>
  when it proceeds) and the time at which it proceeds.
\<close>

fun callsInTurn :: "Limiter \<Rightarrow> int \<Rightarrow> int list \<Rightarrow> (int \<times> int) list" where
  "callsInTurn l clock [] = []"
| "callsInTurn l clock (t # ts) =
     (case rateLimitWait l (max clock t) of
        (l1, go) \<Rightarrow> (lastRequestTime l1, go) # callsInTurn l1 go ts)"

text \<open>
  Calls issued at the same instant without waiting for each other: every call runs its
  first piece at that instant, in order; then the timers of the sleeping calls fire, in
  the order they were set. For each call, the time at which it proceeds.
\<close>

fun enterAll :: "Limiter \<Rightarrow> int \<Rightarrow> nat \<Rightarrow> Limiter \<times> int option list" where
  "enterAll l now 0 = (l, [])"
| "enterAll l now (Suc n) =
     (case rateLimitEnter l now of
        (l1, w) \<Rightarrow> (case enterAll l1 now n of (l2, ws) \<Rightarrow> (l2, w # ws)))"

fun resumeAll :: "Limiter \<Rightarrow> int \<Rightarrow> int option list \<Rightarrow> Limiter" where
  "resumeAll l now [] = l"
| "resumeAll l now (None # ws) = resumeAll l now ws"
| "resumeAll l now (Some waitTime # ws) = resumeAll (rateLimitResume l (now + waitTime)) now ws"

definition callsAtOnce :: "Limiter \<Rightarrow> int \<Rightarrow> nat \<Rightarrow> Limiter \<times> int list" where
  "callsAtOnce l now n =
     (case enterAll l now n of
        (l1, ws) \<Rightarrow> (resumeAll l1 now ws,
                     map (\<lambda>w. case w of None \<Rightarrow> now | Some waitTime \<Rightarrow> now + waitTime) ws))"

subsection \<open>Fetching the source\<close>

definition orElse :: "string \<Rightarrow> string \<Rightarrow> string" where
  "orElse s d = (if s = [] then d else s)"

definition isDigit :: "char \<Rightarrow> bool" where
  "isDigit c = (let n = (of_char c :: nat) in 48 \<le> n \<and> n \<le> 57)"

text \<open>\<open>parseInt(s, 10)\<close>; \<open>None\<close> is NaN.\<close>

definition parseInt10 :: "string \<Rightarrow> int option" where
  "parseInt10 s =
     (let t = dropWhile isSpace s;
          neg = (t \<noteq> [] \<and> hd t = CHR ''-'');
          u = (if t \<noteq> [] \<and> (hd t = CHR ''-'' \<or> hd t = CHR ''+'') then tl t else t);
          ds = takeWhile isDigit u;
          n = foldl (\<lambda>a c. 10 * a + (int (of_char c) - 48)) 0 ds
      in if ds = [] then None else Some (if neg then - n else n))"

definition parseMultiFileSource :: "Env \<Rightarrow> string \<Rightarrow> string" where
  "parseMultiFileSource env raw =
     (case jsonSources env (slice raw 1 (length raw - 1)) of
        Some srcs \<Rightarrow>
          joinWith [NL, NL] (map (\<lambda>(filename, content). ''// --- '' @ filename @ '' ---'' @ [NL] @ content) srcs)
      | None \<Rightarrow> raw)"

definition normalizeSource :: "Env \<Rightarrow> string \<Rightarrow> string" where
  "normalizeSource env sc =
     (if startsWith sc ''{{'' then parseMultiFileSource env sc
      else if startsWith sc ''{'' then
        (case jsonSources env sc of
           Some srcs \<Rightarrow> joinWith [NL, NL] (map snd srcs)
         | None \<Rightarrow> sc)
      else sc)"

definition makeContractSource :: "Env \<Rightarrow> string \<Rightarrow> BasescanContractResult \<Rightarrow> ContractSource" where
  "makeContractSource env address r =
     \<lparr>src_contractAddress = address,
      src_contractName = orElse (ContractName r) ''Unknown'',
      src_compilerVersion = orElse (CompilerVersion r) ''Unknown'',
      sourceCode = normalizeSource env (SourceCode r),
      abi = orElse (ABI r) ''[]'',
      constructorArguments = orElse (ConstructorArguments r) '''',
      optimizationUsed = (OptimizationUsed r = ''1''),
      runs = parseInt10 (orElse (Runs r) ''0''),
      evmVersion = orElse (EVMVersion r) ''default'',
      library = orElse (Library r) '''',
      licenseType = orElse (LicenseType r) ''None'',
      isProxy = (Proxy r = ''1''),
      implementationAddress = (if Implementation r = [] then None else Some (Implementation r))\<rparr>"

text \<open>The assignment made when the implementation's source came back.\<close>

definition spliceImplementation ::
  "string \<Rightarrow> string \<Rightarrow> ContractSource \<Rightarrow> ContractSource option \<Rightarrow> ContractSource" where
  "spliceImplementation address impl cs implSource =
     (case implSource of
        None \<Rightarrow> cs
      | Some i \<Rightarrow>
          cs\<lparr>sourceCode :=
                ''// PROXY CONTRACT: '' @ address @ [NL] @
                ''// IMPLEMENTATION: '' @ impl @ [NL, NL] @
                sourceCode i,
             src_contractName := src_contractName cs @ '' (Proxy -> '' @ src_contractName i @ '')''\<rparr>)"

text \<open>
  \<open>getContractSource\<close> calls itself on the implementation address, so it need not return:
  \<open>None\<close> is a call that never returns. A call that returns gives the source (or \<open>null\<close>,
  the inner \<open>None\<close>) and the addresses requested from the API, in order. The wait on the
  rate limiter before each request delays the request and does not change its answer.
\<close>

partial_function (option) getContractSource ::
  "Env \<Rightarrow> string \<Rightarrow> string \<Rightarrow> (ContractSource option \<times> string list) option" where
  "getContractSource env address apiKey =
     (case basescanApi env address apiKey of
        None \<Rightarrow> Some (None, [address])
      | Some data \<Rightarrow>
          (case result data of
             [] \<Rightarrow> Some (None, [address])
           | r # _ \<Rightarrow>
               if status data \<noteq> ''1'' \<or> SourceCode r = [] then Some (None, [address])
               else
                 (let cs = makeContractSource env address r in
                  case implementationAddress cs of
                    None \<Rightarrow> Some (Some cs, [address])
                  | Some impl \<Rightarrow>
                      if isProxy cs then
                        Option.bind (getContractSource env impl apiKey)
                          (\<lambda>implResult. Some (Some (spliceImplementation address impl cs (fst implResult)),
                                              address # snd implResult))
                      else Some (Some cs, [address]))))"

section \<open>analyzer.ts\<close>

definition MAX_SOURCE_LENGTH :: nat where
  "MAX_SOURCE_LENGTH = 16000"

subsection \<open>Reading the findings\<close>

text \<open>
  The match of \<open>/\[[\s\S]*\]/\<close>: from the first opening bracket to the last closing
  bracket after it.
\<close>

definition jsonMatch :: "string \<Rightarrow> string option" where
  "jsonMatch text =
     (let m = rev (dropWhile (\<lambda>c. c \<noteq> CHR '']'') (rev (dropWhile (\<lambda>c. c \<noteq> CHR ''['') text)))
      in if m = [] then None else Some m)"

text \<open>
  \<open>findings.filter(f => f.confidence >= confidenceThreshold)\<close>, element by element:
  the read of \<open>confidence\<close> throws on \<open>null\<close> (\<open>None\<close>: the filter threw), and gives
  \<open>undefined\<close>, which is not at least any number, on a value that is not an object.
\<close>

fun filterFindings :: "jsNumber \<Rightarrow> JsonElement list \<Rightarrow> SolidityFinding list option" where
  "filterFindings threshold [] = Some []"
| "filterFindings threshold (e # es) =
     (case e of
        JsonNull \<Rightarrow> None
      | JsonOther \<Rightarrow> filterFindings threshold es
      | JsonObject f \<Rightarrow>
          (case filterFindings threshold es of
             None \<Rightarrow> None
           | Some kept \<Rightarrow> Some (if jsGe (confidence f) threshold then f # kept else kept)))"

text \<open>The \<open>catch\<close> returns no findings when the parse or the filter threw.\<close>

definition parseFindings :: "Env \<Rightarrow> string \<Rightarrow> jsNumber \<Rightarrow> SolidityFinding list" where
  "parseFindings env text threshold =
     (case jsonMatch text of
        None \<Rightarrow> []
      | Some m \<Rightarrow>
          (case jsonFindings env m of
             None \<Rightarrow> []
           | Some elements \<Rightarrow>
               (case filterFindings threshold elements of None \<Rightarrow> [] | Some kept \<Rightarrow> kept)))"

subsection \<open>The chunker\<close>

text \<open>
  The regular expression of \<open>chunkSourceCode\<close> is
  \<open>/(?:^|\n)((?:abstract\s+)?(?:contract|interface|library)\s+\w+[^{]*\{)/g\<close>.
  Each function below matches one piece of it at the start of a text and returns what
  is left of the text after the piece. A run \<open>\s+\<close> is followed by a character that is
  not a space, so it takes every space there is.
\<close>

definition spaces1 :: "string \<Rightarrow> string option" where
  "spaces1 s = (if s \<noteq> [] \<and> isSpace (hd s) then Some (dropWhile isSpace s) else None)"

definition declKeyword :: "string \<Rightarrow> string option" where
  "declKeyword s =
     (if startsWith s ''contract'' then Some (drop 8 s)
      else if startsWith s ''interface'' then Some (drop 9 s)
      else if startsWith s ''library'' then Some (drop 7 s)
      else None)"

text \<open>\<open>\w+[^{]*\{\<close>: a word character, then everything up to the first opening brace.\<close>

definition nameToBrace :: "string \<Rightarrow> string option" where
  "nameToBrace s =
     (case s of
        [] \<Rightarrow> None
      | c # cs \<Rightarrow>
          if isWord c then
            (case dropWhile (\<lambda>x. x \<noteq> CHR ''{'') cs of [] \<Rightarrow> None | b # after \<Rightarrow> Some after)
          else None)"

definition declHead :: "string \<Rightarrow> string option" where
  "declHead s = Option.bind (Option.bind (declKeyword s) spaces1) nameToBrace"

text \<open>The group: with the optional \<open>abstract\s+\<close> first, without it when that fails.\<close>

definition declGroup :: "string \<Rightarrow> string option" where
  "declGroup s =
     (case (if startsWith s ''abstract'' then spaces1 (drop 8 s) else None) of
        Some r \<Rightarrow> (case declHead r of Some after \<Rightarrow> Some after | None \<Rightarrow> declHead s)
      | None \<Rightarrow> declHead s)"

text \<open>
  The length of the match that starts at position \<open>p\<close>, where \<open>s\<close> is the text from \<open>p\<close>
  on: \<open>^\<close> holds at position 0 only (the expression has no \<open>m\<close> flag), and the other way
  in is a newline, which then belongs to the match.
\<close>

definition matchAt :: "nat \<Rightarrow> string \<Rightarrow> nat option" where
  "matchAt p s =
     (case (if p = 0 then declGroup s else None) of
        Some after \<Rightarrow> Some (length s - length after)
      | None \<Rightarrow>
          (case s of
             [] \<Rightarrow> None
           | c # cs \<Rightarrow>
               if c = NL then map_option (\<lambda>after. length s - length after) (declGroup cs)
               else None))"

text \<open>
  \<open>matchAll\<close>: the start index of every match, from left to right; after a match the
  search goes on at \<open>lastIndex\<close>, the end of that match. A match holds a keyword, so
  there is none at the end of the text.
\<close>

fun matchAll :: "nat \<Rightarrow> nat \<Rightarrow> string \<Rightarrow> nat list" where
  "matchAll p lastIndex [] = []"
| "matchAll p lastIndex (c # cs) =
     (if p < lastIndex then matchAll (Suc p) lastIndex cs
      else (case matchAt p (c # cs) of
              Some n \<Rightarrow> p # matchAll (Suc p) (p + n) cs
            | None \<Rightarrow> matchAll (Suc p) lastIndex cs))"

definition contractMatches :: "string \<Rightarrow> nat list" where
  "contractMatches code = matchAll 0 0 code"

text \<open>The loop of \<open>splitByLines\<close> over the lines, with its two variables.\<close>

fun packLines :: "nat \<Rightarrow> string list \<Rightarrow> string \<Rightarrow> string list \<Rightarrow> string list" where
  "packLines maxLength chunks current [] =
     (if current \<noteq> [] then chunks @ [current] else chunks)"
| "packLines maxLength chunks current (aLine # others) =
     (let flush = (length current + length aLine + 1 > maxLength \<and> length current > 0);
          chunks1 = (if flush then chunks @ [current] else chunks);
          current1 = (if flush then [] else current)
      in packLines maxLength chunks1 (current1 @ (if current1 \<noteq> [] then [NL] else []) @ aLine) others)"

definition splitByLines :: "string \<Rightarrow> nat \<Rightarrow> string list" where
  "splitByLines text maxLength = packLines maxLength [] [] (splitNL text)"

text \<open>The loop over the matches: the chunks of each unit, in order.\<close>

fun contractChunks :: "string \<Rightarrow> nat list \<Rightarrow> string list" where
  "contractChunks code [] = []"
| "contractChunks code (start # rest) =
     (let endIx = (case rest of [] \<Rightarrow> length code | nxt # _ \<Rightarrow> nxt);
          chunk = slice code start endIx
      in (if length chunk \<le> MAX_SOURCE_LENGTH then [chunk]
          else splitByLines chunk MAX_SOURCE_LENGTH)
         @ contractChunks code rest)"

definition chunkSourceCode :: "string \<Rightarrow> string list" where
  "chunkSourceCode code =
     (let matches = contractMatches code in
      if length matches \<le> 1 then splitByLines code MAX_SOURCE_LENGTH
      else
        (let chunks = contractChunks code matches in
         if hd matches > 0 then
           (let preamble = trim (slice code 0 (hd matches)) in
            if length preamble > 0 \<and> length chunks > 0
            then chunks[0 := preamble @ [NL, NL] @ chunks ! 0]
            else chunks)
         else chunks))"

subsection \<open>The analysis of a contract\<close>

text \<open>
  Both back ends send the prompt built from the contract name, the chunk and the
  compiler version, read the answer's text, and hand it to \<open>parseFindings\<close>; a request
  that fails or times out gives no findings.
\<close>

definition analyzeSingleChunk ::
  "Env \<Rightarrow> AppConfig \<Rightarrow> string \<Rightarrow> string \<Rightarrow> string \<Rightarrow> SolidityFinding list" where
  "analyzeSingleChunk env config contractName code compilerVersion =
     (case llmResponse env contractName code compilerVersion of
        None \<Rightarrow> []
      | Some text \<Rightarrow> parseFindings env text (confidenceThreshold config))"

text \<open>The texts sent to the analyzer for a source, in order.\<close>

definition analyzedChunks :: "ContractSource \<Rightarrow> string list" where
  "analyzedChunks source =
     (if length (sourceCode source) \<le> MAX_SOURCE_LENGTH then [sourceCode source]
      else chunkSourceCode (sourceCode source))"

definition analyzeContract :: "Env \<Rightarrow> AppConfig \<Rightarrow> ContractSource \<Rightarrow> SolidityFinding list" where
  "analyzeContract env config source =
     (if length (sourceCode source) \<le> MAX_SOURCE_LENGTH
      then analyzeSingleChunk env config (src_contractName source) (sourceCode source)
             (src_compilerVersion source)
      else concat (map (\<lambda>chunk. analyzeSingleChunk env config (src_contractName source) chunk
                                  (src_compilerVersion source))
                       (chunkSourceCode (sourceCode source))))"

section \<open>monitor.ts\<close>

subsection \<open>The audit of one deployment\<close>

definition determineOverallRisk :: "SolidityFinding list \<Rightarrow> Risk" where
  "determineOverallRisk fs =
     (if list_ex (\<lambda>f. severity f = ''critical'') fs then risk_critical
      else if list_ex (\<lambda>f. severity f = ''high'') fs then risk_high
      else if list_ex (\<lambda>f. severity f = ''medium'') fs then risk_medium
      else if list_ex (\<lambda>f. severity f = ''low'') fs then risk_low
      else risk_none)"

definition countSeverity :: "string \<Rightarrow> SolidityFinding list \<Rightarrow> nat" where
  "countSeverity s fs = length (filter (\<lambda>f. severity f = s) fs)"

definition generateSummary :: "SolidityFinding list \<Rightarrow> string \<Rightarrow> string" where
  "generateSummary fs contractName =
     (if length fs = 0 then ''No security issues found in '' @ contractName @ ''.''
      else
        (let parts =
               (if countSeverity ''critical'' fs > 0 then [showNat (countSeverity ''critical'' fs) @ '' critical''] else [])
             @ (if countSeverity ''high'' fs > 0 then [showNat (countSeverity ''high'' fs) @ '' high''] else [])
             @ (if countSeverity ''medium'' fs > 0 then [showNat (countSeverity ''medium'' fs) @ '' medium''] else [])
             @ (if countSeverity ''low'' fs > 0 then [showNat (countSeverity ''low'' fs) @ '' low''] else [])
         in ''Found '' @ showNat (length fs) @ '' issue(s) in '' @ contractName @ '': ''
            @ joinWith '', '' parts))"

text \<open>
  What \<open>processContract\<close> reads and writes: the monitor's counters, the report store, and
  the two logs of the requests made to the outside, the addresses asked of the source
  API and the texts sent to the analyzer.
\<close>

record World =
  monitorState :: MonitorState
  store :: Store
  basescanCalls :: "string list"
  analyzerCalls :: "string list"

definition minimalReport :: "Fresh \<Rightarrow> ContractDeployment \<Rightarrow> AuditReport" where
  "minimalReport fresh deployment =
     \<lparr>rep_id = uuidv4 fresh,
      rep_contractAddress = contractAddress deployment,
      rep_contractName = ''Unknown'',
      deploymentTxHash = txHash deployment,
      rep_deployer = deployer deployment,
      rep_blockNumber = blockNumber deployment,
      deployedAt = timestamp deployment,
      auditedAt = dateNow fresh 0,
      sourceAvailable = False,
      findings = [],
      summary = ''Source code not verified on Basescan. Unable to audit.'',
      overallRisk = risk_none,
      analysisTimeMs = 0,
      rep_compilerVersion = None,
      sourceCodeHash = None\<rparr>"

definition auditedReport ::
  "Env \<Rightarrow> Fresh \<Rightarrow> ContractDeployment \<Rightarrow> ContractSource \<Rightarrow> SolidityFinding list \<Rightarrow> AuditReport" where
  "auditedReport env fresh deployment source fs =
     \<lparr>rep_id = uuidv4 fresh,
      rep_contractAddress = contractAddress deployment,
      rep_contractName = src_contractName source,
      deploymentTxHash = txHash deployment,
      rep_deployer = deployer deployment,
      rep_blockNumber = blockNumber deployment,
      deployedAt = timestamp deployment,
      auditedAt = dateNow fresh 2,
      sourceAvailable = True,
      findings = fs,
      summary = generateSummary fs (src_contractName source),
      overallRisk = determineOverallRisk fs,
      analysisTimeMs = dateNow fresh 1 - dateNow fresh 0,
      rep_compilerVersion = Some (src_compilerVersion source),
      sourceCodeHash = Some (sha256hex env (sourceCode source))\<rparr>"

text \<open>
  How an asynchronous function ends when it ends: its promise resolves, or it rejects
  with an error.
\<close>

datatype Outcome = Returned | Rejected

text \<open>
  \<open>processContract\<close> after its 30 s sleep. The fetch and the analysis catch their own
  failures (the fetch returns \<open>null\<close>, the analysis returns no findings), so the one
  error there is comes from the write of the report file: with no source it rejects the
  call, with a source the \<open>catch\<close> around the analysis logs it and the audited counter
  is not incremented. \<open>None\<close> is a call that never ends, because the fetch never does.
\<close>

definition processContract ::
  "Env \<Rightarrow> AppConfig \<Rightarrow> Fresh \<Rightarrow> ContractDeployment \<Rightarrow> World \<Rightarrow> (Outcome \<times> World) option" where
  "processContract env config fresh deployment w =
     (case getAuditByAddress (store w) (contractAddress deployment) of
        Some existing \<Rightarrow> Some (Returned, w)
      | None \<Rightarrow>
          Option.bind (getContractSource env (contractAddress deployment) (basescanApiKey config))
            (\<lambda>fetched.
               let w1 = w\<lparr>basescanCalls := basescanCalls w @ snd fetched\<rparr> in
               case fst fetched of
                 None \<Rightarrow>
                   (let w2 = w1\<lparr>monitorState := (monitorState w1)
                                  \<lparr>contractsSkipped := contractsSkipped (monitorState w1) + 1\<rparr>\<rparr>;
                        saved = saveAudit env (minimalReport fresh deployment) (dataDir config) (store w2)
                    in Some (if snd saved then Returned else Rejected, w2\<lparr>store := fst saved\<rparr>))
               | Some source \<Rightarrow>
                   (let fs = analyzeContract env config source;
                        w2 = w1\<lparr>analyzerCalls := analyzerCalls w1 @ analyzedChunks source\<rparr>;
                        saved = saveAudit env (auditedReport env fresh deployment source fs)
                                  (dataDir config) (store w2);
                        w3 = w2\<lparr>store := fst saved\<rparr>
                    in Some (Returned,
                             if snd saved
                             then w3\<lparr>monitorState := (monitorState w3)
                                      \<lparr>contractsAudited := contractsAudited (monitorState w3) + 1\<rparr>\<rparr>
                             else w3))))"

subsection \<open>The polling loop\<close>

text \<open>
  The chain as one tick of the loop sees it: the height (\<open>None\<close>: the call threw), the
  blocks, the receipts and the code (\<open>None\<close>: the call threw; the code itself may be
  undefined). \<open>stopDuring n\<close> tells whether \<open>stopMonitor\<close> runs while the loop awaits the
  data of block \<open>n\<close>.
\<close>

record Tx =
  tx_hash :: string
  tx_from :: string
  tx_to :: "string option"

record Block =
  transactions :: "Tx list"
  blk_timestamp :: int

record Chain =
  getBlockNumber :: "int option"
  getBlock :: "int \<Rightarrow> Block option"
  getTransactionReceipt :: "string \<Rightarrow> string option option"
  getCode :: "string \<Rightarrow> string option option"
  stopDuring :: "int \<Rightarrow> bool"

text \<open>
  The variables of \<open>startMonitor\<close>, and with them \<open>scanned\<close>: the blocks whose
  transactions the loop has gone through, in order.
\<close>

record Monitor =
  state :: MonitorState
  stopRequested :: bool
  auditQueue :: "ContractDeployment list"
  scanned :: "int list"

definition codeSize :: "string option option \<Rightarrow> real" where
  "codeSize r =
     (case r of
        Some (Some bytecode) \<Rightarrow> if bytecode = [] then 0 else real (length bytecode) / 2 - 1
      | _ \<Rightarrow> 0)"

fun scanTransactions :: "Chain \<Rightarrow> int \<Rightarrow> Block \<Rightarrow> Tx list \<Rightarrow> Monitor \<Rightarrow> Monitor" where
  "scanTransactions chain blockNum block [] m = m"
| "scanTransactions chain blockNum block (tx # txs) m =
     scanTransactions chain blockNum block txs
       (if tx_to tx = None then
          (case getTransactionReceipt chain (tx_hash tx) of
             None \<Rightarrow> m
           | Some None \<Rightarrow> m
           | Some (Some created) \<Rightarrow>
               if created = [] then m
               else
                 m\<lparr>state := (state m)\<lparr>contractsFound := contractsFound (state m) + 1\<rparr>,
                   auditQueue := auditQueue m @
                     [\<lparr>txHash = tx_hash tx, contractAddress = created, deployer = tx_from tx,
                       blockNumber = blockNum, timestamp = blk_timestamp block,
                       bytecodeSize = codeSize (getCode chain created)\<rparr>]\<rparr>)
        else m)"

definition processBlock :: "Chain \<Rightarrow> int \<Rightarrow> Monitor \<Rightarrow> Monitor" where
  "processBlock chain blockNum m =
     (let m1 = (case getBlock chain blockNum of
                  None \<Rightarrow> m
                | Some block \<Rightarrow>
                    (scanTransactions chain blockNum block (transactions block) m)
                      \<lparr>scanned := scanned m @ [blockNum]\<rparr>)
      in m1\<lparr>stopRequested := stopRequested m1 \<or> stopDuring chain blockNum\<rparr>)"

function blockLoop :: "Chain \<Rightarrow> int \<Rightarrow> int \<Rightarrow> Monitor \<Rightarrow> Monitor" where
  "blockLoop chain toBlock blockNum m =
     (if blockNum \<le> toBlock \<and> \<not> stopRequested m
      then blockLoop chain toBlock (blockNum + 1) (processBlock chain blockNum m)
      else m)"
  by pat_completeness auto
termination
  by (relation "measure (\<lambda>(chain, toBlock, blockNum, m). nat (toBlock + 1 - blockNum))") auto

declare blockLoop.simps [simp del]

text \<open>One pass of the body of \<open>while (!stopRequested)\<close>, up to the sleep.\<close>

definition monitorTick :: "Chain \<Rightarrow> Monitor \<Rightarrow> Monitor" where
  "monitorTick chain m =
     (case getBlockNumber chain of
        None \<Rightarrow> m
      | Some currentBlock \<Rightarrow>
          if currentBlock > lastProcessedBlock (state m) then
            (let fromBlock = lastProcessedBlock (state m) + 1;
                 toBlock = currentBlock;
                 m1 = blockLoop chain toBlock fromBlock m
             in m1\<lparr>state := (state m1)\<lparr>lastProcessedBlock := toBlock\<rparr>\<rparr>)
          else m)"

section \<open>routes/api.ts: the on-demand audit\<close>

datatype Response =
  BadRequest string
| Cached AuditReport
| NotVerified string
| Success AuditReport
| AnalysisFailed

definition isHexDigit :: "char \<Rightarrow> bool" where
  "isHexDigit c = (let n = (of_char c :: nat) in
     (48 \<le> n \<and> n \<le> 57) \<or> (97 \<le> n \<and> n \<le> 102) \<or> (65 \<le> n \<and> n \<le> 70))"

text \<open>\<open>/^0x[a-f0-9]{40}$/i\<close>.\<close>

definition validAddress :: "string \<Rightarrow> bool" where
  "validAddress a =
     (length a = 42 \<and> a ! 0 = CHR ''0'' \<and> (a ! 1 = CHR ''x'' \<or> a ! 1 = CHR ''X'')
      \<and> list_all isHexDigit (drop 2 a))"

definition apiOverallRisk :: "SolidityFinding list \<Rightarrow> Risk" where
  "apiOverallRisk fs =
     (if list_ex (\<lambda>f. severity f = ''critical'') fs then risk_critical
      else if list_ex (\<lambda>f. severity f = ''high'') fs then risk_high
      else if list_ex (\<lambda>f. severity f = ''medium'') fs then risk_medium
      else if list_ex (\<lambda>f. severity f = ''low'') fs then risk_low
      else risk_none)"

definition onDemandReport ::
  "Env \<Rightarrow> Fresh \<Rightarrow> string \<Rightarrow> ContractSource \<Rightarrow> SolidityFinding list \<Rightarrow> AuditReport" where
  "onDemandReport env fresh addrClean source fs =
     \<lparr>rep_id = uuidv4 fresh,
      rep_contractAddress = addrClean,
      rep_contractName = src_contractName source,
      deploymentTxHash = ''on-demand'',
      rep_deployer = ''unknown'',
      rep_blockNumber = 0,
      deployedAt = 0,
      auditedAt = dateNow fresh 2,
      sourceAvailable = True,
      findings = fs,
      summary = generateSummary fs (src_contractName source),
      overallRisk = apiOverallRisk fs,
      analysisTimeMs = dateNow fresh 1 - dateNow fresh 0,
      rep_compilerVersion = Some (src_compilerVersion source),
      sourceCodeHash = Some (sha256hex env (sourceCode source))\<rparr>"

text \<open>
  The handler of \<open>POST /audit\<close>: the body's \<open>address\<close> is \<open>None\<close> when it is missing or not
  a string. The handler's summary is written out in the route and is the text
  \<open>generateSummary\<close> builds. Its \<open>catch\<close> answers 500, \<open>AnalysisFailed\<close>, when the write of
  the report file fails.
\<close>

definition postAudit ::
  "Env \<Rightarrow> AppConfig \<Rightarrow> Fresh \<Rightarrow> string option \<Rightarrow> World \<Rightarrow> (Response \<times> World) option" where
  "postAudit env config fresh body w =
     (case body of
        None \<Rightarrow> Some (BadRequest ''Missing or invalid \"address\" in request body'', w)
      | Some address \<Rightarrow>
          if address = [] then Some (BadRequest ''Missing or invalid \"address\" in request body'', w)
          else
            (let addrClean = toLowerCase (trim address) in
             if \<not> validAddress addrClean then Some (BadRequest ''Invalid Ethereum address format'', w)
             else
               (case (case getAuditByAddress (store w) addrClean of
                        Some existing \<Rightarrow> if sourceAvailable existing then Some existing else None
                      | None \<Rightarrow> None) of
                  Some existing \<Rightarrow> Some (Cached existing, w)
                | None \<Rightarrow>
                    Option.bind (getContractSource env addrClean (basescanApiKey config))
                      (\<lambda>fetched.
                         let w1 = w\<lparr>basescanCalls := basescanCalls w @ snd fetched\<rparr> in
                         case fst fetched of
                           None \<Rightarrow> Some (NotVerified addrClean, w1)
                         | Some source \<Rightarrow>
                             (let fs = analyzeContract env config source;
                                  audit = onDemandReport env fresh addrClean source fs;
                                  saved = saveAudit env audit (dataDir config) (store w1)
                              in Some (if snd saved then Success audit else AnalysisFailed,
                                       w1\<lparr>analyzerCalls := analyzerCalls w1 @ analyzedChunks source,
                                          store := fst saved\<rparr>))))))"

section \<open>What the specification speaks of\<close>

text \<open>
  The severities in their order, \<open>critical > high > medium > low\<close>, with every other
  string below them, and the overall risk as the maximum severity among the findings:
  the risk of the highest rank that occurs, "none" when there is no finding or when no
  finding has one of the four severities. \<open>riskName\<close> is the string a risk is in the
  report.
\<close>

definition severityRank :: "string \<Rightarrow> nat" where
  "severityRank s =
     (if s = ''critical'' then 4 else if s = ''high'' then 3 else if s = ''medium'' then 2
      else if s = ''low'' then 1 else 0)"

definition rankRisk :: "nat \<Rightarrow> Risk" where
  "rankRisk n = (if n = 0 then risk_none else if n = 1 then risk_low else if n = 2 then risk_medium
                 else if n = 3 then risk_high else risk_critical)"

definition maxSeverityRisk :: "SolidityFinding list \<Rightarrow> Risk" where
  "maxSeverityRisk fs =
     (if fs = [] then risk_none else rankRisk (Max (set (map (\<lambda>f. severityRank (severity f)) fs))))"

definition riskName :: "Risk \<Rightarrow> string" where
  "riskName r = (case r of risk_critical \<Rightarrow> ''critical'' | risk_high \<Rightarrow> ''high''
     | risk_medium \<Rightarrow> ''medium'' | risk_low \<Rightarrow> ''low'' | risk_none \<Rightarrow> ''none'')"

text \<open>
  The findings list the analyzer returned for a chunk: the elements of the array that
  \<open>parseFindings\<close> has parsed before it filters, none when there is no answer, no array
  in it, or no parse. The findings of such a list are its objects, and those kept at a
  threshold are the ones whose confidence is a number at least the threshold, itself a
  number.
\<close>

definition analyzerOutput :: "Env \<Rightarrow> string \<Rightarrow> string \<Rightarrow> string \<Rightarrow> JsonElement list" where
  "analyzerOutput env contractName code compilerVersion =
     (case llmResponse env contractName code compilerVersion of
        None \<Rightarrow> []
      | Some text \<Rightarrow>
          (case jsonMatch text of
             None \<Rightarrow> []
           | Some m \<Rightarrow> (case jsonFindings env m of None \<Rightarrow> [] | Some elements \<Rightarrow> elements)))"

definition objectsOf :: "JsonElement list \<Rightarrow> SolidityFinding list" where
  "objectsOf elements =
     concat (map (\<lambda>e. case e of JsonObject f \<Rightarrow> [f] | JsonNull \<Rightarrow> [] | JsonOther \<Rightarrow> []) elements)"

definition atLeastThreshold :: "jsNumber \<Rightarrow> SolidityFinding \<Rightarrow> bool" where
  "atLeastThreshold threshold f =
     (case confidence f of
        None \<Rightarrow> False
      | Some c \<Rightarrow> (case threshold of None \<Rightarrow> False | Some t \<Rightarrow> t \<le> c))"

definition confidentFindings :: "jsNumber \<Rightarrow> JsonElement list \<Rightarrow> SolidityFinding list" where
  "confidentFindings threshold elements = filter (atLeastThreshold threshold) (objectsOf elements)"

text \<open>
  The findings kept of the lists returned for the chunks of a source, in chunk order; a
  list that holds \<open>null\<close> is discarded whole.
\<close>

definition keptFindings :: "Env \<Rightarrow> AppConfig \<Rightarrow> ContractSource \<Rightarrow> SolidityFinding list" where
  "keptFindings env config source =
     concat (map (\<lambda>chunk.
                    let returned = analyzerOutput env (src_contractName source) chunk
                                     (src_compilerVersion source)
                    in if JsonNull \<in> set returned then []
                       else confidentFindings (confidenceThreshold config) returned)
                 (analyzedChunks source))"

text \<open>
  The implementation address a fetch of \<open>address\<close> goes on to fetch, if any, and the
  chain of addresses that starts at \<open>address\<close> when it ends after at most \<open>n\<close> such hops.
\<close>

definition proxyTarget :: "Env \<Rightarrow> string \<Rightarrow> string \<Rightarrow> string option" where
  "proxyTarget env address apiKey =
     (case basescanApi env address apiKey of
        None \<Rightarrow> None
      | Some data \<Rightarrow>
          (case result data of
             [] \<Rightarrow> None
           | r # _ \<Rightarrow>
               if status data \<noteq> ''1'' \<or> SourceCode r = [] then None
               else if Proxy r = ''1'' \<and> Implementation r \<noteq> [] then Some (Implementation r)
               else None))"

fun proxyChain :: "Env \<Rightarrow> string \<Rightarrow> nat \<Rightarrow> string \<Rightarrow> string list option" where
  "proxyChain env apiKey 0 address =
     (case proxyTarget env address apiKey of None \<Rightarrow> Some [address] | Some impl \<Rightarrow> None)"
| "proxyChain env apiKey (Suc n) address =
     (case proxyTarget env address apiKey of
        None \<Rightarrow> Some [address]
      | Some impl \<Rightarrow> map_option ((#) address) (proxyChain env apiKey n impl))"

text \<open>
  "At most 5 calls within any rolling one-second window", for the times at which calls
  proceed: the second that starts at any of them holds at most 5 of them.
\<close>

definition rollingWindowOk :: "int list \<Rightarrow> bool" where
  "rollingWindowOk goes =
     list_all (\<lambda>t. length (filter (\<lambda>u. t \<le> u \<and> u < t + 1000) goes) \<le> 5) goes"

text \<open>The lines of a text that are not empty, in order.\<close>

definition nonEmptyLines :: "string \<Rightarrow> string list" where
  "nonEmptyLines s = filter (\<lambda>l. l \<noteq> []) (splitNL s)"

text \<open>
  The units of a source: the text from each declaration found to the next one, or to the
  end for the last. The index at which the source is first split (0 when fewer than two
  declarations are found), and the preamble, the trimmed text before that index.
\<close>

fun contractUnits :: "string \<Rightarrow> nat list \<Rightarrow> string list" where
  "contractUnits code [] = []"
| "contractUnits code (start # rest) =
     slice code start (case rest of [] \<Rightarrow> length code | nxt # _ \<Rightarrow> nxt) # contractUnits code rest"

definition splitStart :: "string \<Rightarrow> nat" where
  "splitStart code = (if length (contractMatches code) \<le> 1 then 0 else hd (contractMatches code))"

definition preambleOf :: "string \<Rightarrow> string" where
  "preambleOf code = trim (slice code 0 (splitStart code))"

text \<open>The whitespace that \<open>trim\<close> takes off the two ends of a text.\<close>

definition leadingSpace :: "string \<Rightarrow> string" where
  "leadingSpace s = takeWhile isSpace s"

definition trailingSpace :: "string \<Rightarrow> string" where
  "trailingSpace s = rev (takeWhile isSpace (rev (dropWhile isSpace s)))"

section \<open>Example inputs\<close>

definition addrImpl :: string where
  "addrImpl = ''0xaaaaaaaaaaaaaaaaaaaaaaaaaaaaaaaaaaaaaaaa''"

definition addrProxy :: string where
  "addrProxy = ''0xbbbbbbbbbbbbbbbbbbbbbbbbbbbbbbbbbbbbbbbb''"

definition addrOuter :: string where
  "addrOuter = ''0xcccccccccccccccccccccccccccccccccccccccc''"

definition addrLoop :: string where
  "addrLoop = ''0xdddddddddddddddddddddddddddddddddddddddd''"

text \<open>An address of which the source API knows nothing.\<close>

definition addrUnverified :: string where
  "addrUnverified = ''0xeeeeeeeeeeeeeeeeeeeeeeeeeeeeeeeeeeeeeeee''"

definition exRecord :: "string \<Rightarrow> string \<Rightarrow> string \<Rightarrow> string \<Rightarrow> BasescanResponse" where
  "exRecord nm code proxyFlag impl =
     \<lparr>status = ''1'', message = ''OK'',
      result = [\<lparr>SourceCode = code, ABI = ''[]'', ContractName = nm, CompilerVersion = ''v0.8.20'',
                 OptimizationUsed = ''1'', Runs = ''200'', ConstructorArguments = [],
                 EVMVersion = ''default'', Library = [], LicenseType = ''MIT'',
                 Proxy = proxyFlag, Implementation = impl\<rparr>]\<rparr>"

definition exCritical :: SolidityFinding where
  "exCritical = \<lparr>f_type = ''Reentrancy'', severity = ''critical'', line = 45, description = ''d'',
     suggestion = ''s'', cweId = Some ''CWE-841'', confidence = Some 0.9, category = ''reentrancy''\<rparr>"

definition exLow :: SolidityFinding where
  "exLow = \<lparr>f_type = ''Timestamp'', severity = ''low'', line = 7, description = ''d'',
     suggestion = ''s'', cweId = None, confidence = Some 0.5, category = ''timestamp-dependency''\<rparr>"

definition exInfo :: SolidityFinding where
  "exInfo = \<lparr>f_type = ''Missing event'', severity = ''info'', line = 12, description = ''d'',
     suggestion = ''s'', cweId = None, confidence = Some 0.9, category = ''other''\<rparr>"

text \<open>
  A source API that knows a contract \<open>Bar\<close>, a proxy \<open>Foo\<close> of it, a proxy \<open>Outer\<close> of that
  proxy, and a proxy \<open>Loop\<close> whose implementation is itself; an analyzer that finds a
  critical finding of confidence 0.9 and a low one of confidence 0.5 in every chunk; a
  data directory in which every file can be written.
\<close>

definition exEnv :: Env where
  "exEnv =
     \<lparr>basescanApi = (\<lambda>address apiKey.
         if address = addrImpl then Some (exRecord ''Bar'' ''contract Bar {}'' ''0'' [])
         else if address = addrProxy then Some (exRecord ''Foo'' ''contract Foo {}'' ''1'' addrImpl)
         else if address = addrOuter then Some (exRecord ''Outer'' ''contract Outer {}'' ''1'' addrProxy)
         else if address = addrLoop then Some (exRecord ''Loop'' ''contract Loop {}'' ''1'' addrLoop)
         else None),
      jsonSources = (\<lambda>s. None),
      llmResponse = (\<lambda>contractName code compilerVersion. Some ''Findings: [two findings]''),
      jsonFindings = (\<lambda>s. Some [JsonObject exCritical, JsonObject exLow]),
      sha256hex = (\<lambda>s. ''00''),
      fileWritable = (\<lambda>f. True)\<rparr>"

text \<open>
  The same, with an analyzer that answers one finding of severity \<open>info\<close> and confidence
  0.9; with one that answers the critical finding and \<open>null\<close>; and with a data directory
  in which no file can be written.
\<close>

definition exEnvInfo :: Env where
  "exEnvInfo = exEnv\<lparr>jsonFindings := (\<lambda>s. Some [JsonObject exInfo])\<rparr>"

definition exEnvNull :: Env where
  "exEnvNull = exEnv\<lparr>jsonFindings := (\<lambda>s. Some [JsonObject exCritical, JsonNull])\<rparr>"

definition exEnvUnwritable :: Env where
  "exEnvUnwritable = exEnv\<lparr>fileWritable := (\<lambda>f. False)\<rparr>"

text \<open>The source that the fetch returns for the contract \<open>Bar\<close>.\<close>

definition exBar :: ContractSource where
  "exBar =
     \<lparr>src_contractAddress = addrImpl, src_contractName = ''Bar'', src_compilerVersion = ''v0.8.20'',
      sourceCode = ''contract Bar {}'', abi = ''[]'', constructorArguments = [],
      optimizationUsed = True, runs = Some 200, evmVersion = ''default'', library = [],
      licenseType = ''MIT'', isProxy = False, implementationAddress = None\<rparr>"

definition exConfig :: AppConfig where
  "exConfig = \<lparr>basescanApiKey = ''KEY'', pollIntervalMs = 15000, maxConcurrentAnalyses = 3,
     confidenceThreshold = Some 0.7, startBlock = None, dataDir = ''./data''\<rparr>"

definition exFresh :: Fresh where
  "exFresh = \<lparr>uuidv4 = ''id-2'', dateNow = (\<lambda>k. 1700000000000 + int k)\<rparr>"

definition exDeployment :: "string \<Rightarrow> ContractDeployment" where
  "exDeployment a = \<lparr>txHash = ''0xtx'', contractAddress = a, deployer = ''0xdeployer'',
     blockNumber = 11, timestamp = 1700000000, bytecodeSize = 0\<rparr>"

definition exWorld :: World where
  "exWorld =
     \<lparr>monitorState = \<lparr>lastProcessedBlock = 10, isRunning = True, contractsFound = 1,
        contractsAudited = 0, contractsSkipped = 0, startedAt = 0\<rparr>,
      store = \<lparr>auditsById = Map.empty, auditsByAddress = Map.empty, dataFiles = Map.empty\<rparr>,
      basescanCalls = [], analyzerCalls = []\<rparr>"

text \<open>The same world after an audit of the address \<open>a\<close> that found no verified source.\<close>

definition exWorldWith :: "string \<Rightarrow> World" where
  "exWorldWith a =
     exWorld\<lparr>store := fst (saveAudit exEnv
                (minimalReport \<lparr>uuidv4 = ''id-1'', dateNow = (\<lambda>k. 1600000000000)\<rparr> (exDeployment a))
                ''./data'' (store exWorld))\<rparr>"

text \<open>And after an audit of the address \<open>a\<close> whose report has its source.\<close>

definition exWorldAudited :: "string \<Rightarrow> World" where
  "exWorldAudited a =
     exWorld\<lparr>store := fst (saveAudit exEnv
                ((minimalReport \<lparr>uuidv4 = ''id-1'', dateNow = (\<lambda>k. 1600000000000)\<rparr> (exDeployment a))
                   \<lparr>sourceAvailable := True\<rparr>)
                ''./data'' (store exWorld))\<rparr>"

definition exBlock :: "string \<Rightarrow> Block" where
  "exBlock h = \<lparr>transactions = [\<lparr>tx_hash = h, tx_from = ''0xdeployer'', tx_to = None\<rparr>],
     blk_timestamp = 1700000000\<rparr>"

text \<open>
  A chain at height 13 whose blocks 11 and 12 each hold one contract creation, with
  \<open>stopMonitor\<close> running while block 11 is processed; and a monitor that has processed
  block 10.
\<close>

definition exChain :: Chain where
  "exChain =
     \<lparr>getBlockNumber = Some 13,
      getBlock = (\<lambda>n. if n = 11 then Some (exBlock ''0xt11'')
                      else if n = 12 then Some (exBlock ''0xt12'')
                      else Some \<lparr>transactions = [], blk_timestamp = 1700000000\<rparr>),
      getTransactionReceipt = (\<lambda>h. if h = ''0xt11'' then Some (Some addrImpl)
                                   else if h = ''0xt12'' then Some (Some addrProxy)
                                   else None),
      getCode = (\<lambda>a. Some (Some ''0x6080'')),
      stopDuring = (\<lambda>n. n = 11)\<rparr>"

definition exMonitor :: Monitor where
  "exMonitor =
     \<lparr>state = \<lparr>lastProcessedBlock = 10, isRunning = True, contractsFound = 0,
        contractsAudited = 0, contractsSkipped = 0, startedAt = 0\<rparr>,
      stopRequested = False, auditQueue = [], scanned = []\<rparr>"

text \<open>
  A source of one line of 16,001 characters; a source of two lines of 10,000 characters
  each; a source of a line of 16,000 characters, an empty line and a line of 5
  characters. None of them holds a declaration.
\<close>

definition exOneLine :: string where
  "exOneLine = replicate 16001 CHR ''a''"

definition exTwoLines :: string where
  "exTwoLines = replicate 10000 CHR ''a'' @ [NL] @ replicate 10000 CHR ''b''"

definition exGap :: string where
  "exGap = replicate 16000 CHR ''a'' @ [NL, NL] @ replicate 5 CHR ''b''"

text \<open>
  Sources of contracts: a text, then for each triple \<open>(x, n, c)\<close> a contract named \<open>x\<close>,
  declared at the start of a line, with a body of \<open>n\<close> characters \<open>c\<close> on that line: a
  unit of \<open>n + 14\<close> characters. \<open>exOffsets\<close> gives the index at which each unit starts
  when the first starts at \<open>p\<close>.
\<close>

definition exUnit :: "char \<Rightarrow> nat \<Rightarrow> char \<Rightarrow> string" where
  "exUnit x n c = NL # ''contract '' @ [x] @ '' {'' @ replicate n c @ ''}''"

definition exUnits :: "(char \<times> nat \<times> char) list \<Rightarrow> string list" where
  "exUnits us = map (\<lambda>(x, n, c). exUnit x n c) us"

definition exSource :: "string \<Rightarrow> (char \<times> nat \<times> char) list \<Rightarrow> string" where
  "exSource pre us = pre @ concat (exUnits us)"

fun exOffsets :: "nat \<Rightarrow> (char \<times> nat \<times> char) list \<Rightarrow> nat list" where
  "exOffsets p [] = []"
| "exOffsets p ((x, n, c) # us) = p # exOffsets (p + 14 + n) us"

text \<open>
  Two sources of 20,000 characters, each a pragma line and three contracts \<open>A\<close>, \<open>B\<close>
  and \<open>C\<close>: with units of 6,014, 6,014 and 7,949 characters, and with units of 15,990,
  1,993 and 1,994 characters. And two sources of two contracts: after the pragma line
  and an empty line, and after an import line that begins and ends with two spaces.
\<close>

definition exPragma :: string where
  "exPragma = ''pragma solidity ^0.8.0;''"

definition exThree :: string where
  "exThree = exSource exPragma
     [(CHR ''A'', 6000, CHR ''a''), (CHR ''B'', 6000, CHR ''b''), (CHR ''C'', 7935, CHR ''c'')]"

definition exLong :: string where
  "exLong = exSource exPragma
     [(CHR ''A'', 15976, CHR ''a''), (CHR ''B'', 1979, CHR ''b''), (CHR ''C'', 1980, CHR ''c'')]"

definition exBlank :: string where
  "exBlank = exSource (exPragma @ [NL]) [(CHR ''A'', 9000, CHR ''a''), (CHR ''B'', 9000, CHR ''b'')]"

definition exSpaced :: string where
  "exSpaced = exSource ''  import x;  '' [(CHR ''A'', 9000, CHR ''a''), (CHR ''B'', 9000, CHR ''b'')]"

section \<open>Findings and overall risk\<close>






text \<open>
  The risk is "none" exactly when no finding has one of the four severities, and any
  other risk is the severity of a finding that no finding outranks.
\<close>

lemma maxSeverityRisk_none:
  "maxSeverityRisk fs = risk_none \<longleftrightarrow> (\<forall>f \<in> set fs. severityRank (severity f) = 0)"
proof (cases "fs = []")
  case True
  then show ?thesis by (simp add: maxSeverityRisk_def)
next
  case False
  define R where "R = set (map (\<lambda>f. severityRank (severity f)) fs)"
  have fin: "finite R" and ne: "R \<noteq> {}" using False by (auto simp: R_def)
  have "Max R = 0 \<longleftrightarrow> (\<forall>r \<in> R. r = 0)"
    using Max_in[OF fin ne] Max_ge[OF fin] by (metis le_zero_eq)
  moreover have "rankRisk (Max R) = risk_none \<longleftrightarrow> Max R = 0" by (simp add: rankRisk_def)
  ultimately show ?thesis using False by (auto simp: maxSeverityRisk_def R_def)
qed

lemma maxSeverityRisk_occurs:
  assumes "maxSeverityRisk fs \<noteq> risk_none"
  shows "\<exists>f \<in> set fs. severity f = riskName (maxSeverityRisk fs)
           \<and> (\<forall>g \<in> set fs. severityRank (severity g) \<le> severityRank (severity f))"
proof -
  have ne0: "fs \<noteq> []" using assms by (auto simp: maxSeverityRisk_def)
  define R where "R = set (map (\<lambda>f. severityRank (severity f)) fs)"
  have fin: "finite R" and ne: "R \<noteq> {}" using ne0 by (auto simp: R_def)
  have "Max R \<in> R" using fin ne by (rule Max_in)
  then obtain f where f: "f \<in> set fs" "severityRank (severity f) = Max R" by (auto simp: R_def)
  have ub: "\<forall>g \<in> set fs. severityRank (severity g) \<le> Max R"
    using Max_ge[OF fin] by (auto simp: R_def)
  have m: "maxSeverityRisk fs = rankRisk (Max R)" using ne0 by (simp add: maxSeverityRisk_def R_def)
  have pos: "Max R \<noteq> 0" using assms unfolding m by (simp add: rankRisk_def split: if_splits)
  have "severity f = riskName (rankRisk (severityRank (severity f)))"
    using pos f(2) by (auto simp: severityRank_def rankRisk_def riskName_def split: if_splits)
  then show ?thesis using f ub m by auto
qed

lemma filterFindings_kept:
  "filterFindings t es = (if JsonNull \<in> set es then None else Some (confidentFindings t es))"
proof (induction es)
  case Nil
  show ?case by (simp add: confidentFindings_def objectsOf_def)
next
  case (Cons e es)
  then show ?case
    by (cases e) (auto simp: confidentFindings_def objectsOf_def atLeastThreshold_def jsGe_def
        split: option.splits)
qed

lemma analyzeSingleChunk_kept:
  "analyzeSingleChunk env config n c v =
     (if JsonNull \<in> set (analyzerOutput env n c v) then []
      else confidentFindings (confidenceThreshold config) (analyzerOutput env n c v))"
  by (simp add: analyzeSingleChunk_def analyzerOutput_def parseFindings_def filterFindings_kept
      confidentFindings_def objectsOf_def split: option.splits)

lemma analyzeContract_kept: "analyzeContract env config source = keptFindings env config source"
  by (simp add: analyzeContract_def analyzedChunks_def keptFindings_def analyzeSingleChunk_kept Let_def)


lemma getAuditByAddress_saveAudit:
  "getAuditByAddress (fst (saveAudit env r dir st)) (rep_contractAddress r) = Some r"
  by (simp add: getAuditByAddress_def saveAudit_def Let_def)

lemma saveAudit_written:
  "fileWritable env (dir, rep_id r @ ''.json'')
     \<Longrightarrow> snd (saveAudit env r dir st)
       \<and> dataFiles (fst (saveAudit env r dir st)) (dir, rep_id r @ ''.json'') = Some r"
  by (simp add: saveAudit_def Let_def)



lemma postAudit_source:
  assumes "address \<noteq> []" and "validAddress (toLowerCase (trim address))"
    and "map_option sourceAvailable (getAuditByAddress (store w) (toLowerCase (trim address))) \<noteq> Some True"
    and "getContractSource env (toLowerCase (trim address)) (basescanApiKey config) = Some (Some source, calls)"
  shows "\<exists>w'. postAudit env config fresh (Some address) w =
             Some (if fileWritable env (dataDir config, uuidv4 fresh @ ''.json'')
                   then Success (onDemandReport env fresh (toLowerCase (trim address)) source
                                   (analyzeContract env config source))
                   else AnalysisFailed, w')
           \<and> getAuditByAddress (store w') (toLowerCase (trim address))
               = Some (onDemandReport env fresh (toLowerCase (trim address)) source
                         (analyzeContract env config source))
           \<and> (fileWritable env (dataDir config, uuidv4 fresh @ ''.json'')
                \<longrightarrow> dataFiles (store w') (dataDir config, uuidv4 fresh @ ''.json'')
                      = Some (onDemandReport env fresh (toLowerCase (trim address)) source
                                (analyzeContract env config source)))
           \<and> basescanCalls w' = basescanCalls w @ calls
           \<and> analyzerCalls w' = analyzerCalls w @ analyzedChunks source"
proof -
  let ?a = "toLowerCase (trim address)"
  let ?r = "onDemandReport env fresh ?a source (analyzeContract env config source)"
  have addr: "rep_contractAddress ?r = ?a" and rid: "rep_id ?r = uuidv4 fresh"
    by (simp_all add: onDemandReport_def)
  have look: "getAuditByAddress (fst (saveAudit env ?r (dataDir config) (store w))) ?a = Some ?r"
    using getAuditByAddress_saveAudit[of env ?r] by (simp add: addr)
  have wr: "fileWritable env (dataDir config, uuidv4 fresh @ ''.json'')
      \<longrightarrow> dataFiles (fst (saveAudit env ?r (dataDir config) (store w))) (dataDir config, uuidv4 fresh @ ''.json'') = Some ?r"
    using saveAudit_written[of env "dataDir config" ?r "store w"] by (simp add: rid)
  have ok: "snd (saveAudit env ?r (dataDir config) (store w))
      \<longleftrightarrow> fileWritable env (dataDir config, uuidv4 fresh @ ''.json'')"
    by (simp add: saveAudit_def Let_def rid)
  have cache: "(case getAuditByAddress (store w) ?a of
                  Some existing \<Rightarrow> if sourceAvailable existing then Some existing else None
                | None \<Rightarrow> None) = None"
    using assms(3) by (auto split: option.splits)
  have run: "postAudit env config fresh (Some address) w =
      Some (if fileWritable env (dataDir config, uuidv4 fresh @ ''.json'') then Success ?r else AnalysisFailed,
            w\<lparr>basescanCalls := basescanCalls w @ calls,
              analyzerCalls := analyzerCalls w @ analyzedChunks source,
              store := fst (saveAudit env ?r (dataDir config) (store w))\<rparr>)"
    using assms(1,2,4) ok by (simp add: postAudit_def Let_def cache)
  show ?thesis unfolding run using look wr by simp
qed


lemma ex_fetch_impl:
  "getContractSource exEnv addrImpl ''KEY'' =
     Some (Some (makeContractSource exEnv addrImpl (hd (result (exRecord ''Bar'' ''contract Bar {}'' ''0'' [])))), [addrImpl])"
  by (subst getContractSource.simps) (simp add: exEnv_def exRecord_def makeContractSource_def)

lemma exBar_made:
  "makeContractSource e addrImpl (hd (result (exRecord ''Bar'' ''contract Bar {}'' ''0'' []))) = exBar"
  by (simp add: makeContractSource_def exRecord_def exBar_def orElse_def normalizeSource_def
      startsWith_def parseInt10_def isSpace_def isDigit_def Let_def)

lemma fetch_bar:
  assumes "basescanApi e addrImpl k = Some (exRecord ''Bar'' ''contract Bar {}'' ''0'' [])"
  shows "getContractSource e addrImpl k = Some (Some exBar, [addrImpl])"
  by (subst getContractSource.simps)
     (simp add: assms exRecord_def makeContractSource_def exBar_def orElse_def normalizeSource_def
        startsWith_def parseInt10_def isSpace_def isDigit_def Let_def)

lemma ex_jsonMatch: "jsonMatch ''Findings: [two findings]'' = Some ''[two findings]''"
  by (simp add: jsonMatch_def)

lemma ex_writable: "fileWritable exEnv f"
  by (simp add: exEnv_def)

lemma ex_api_bar:
  "basescanApi exEnv addrImpl k = Some (exRecord ''Bar'' ''contract Bar {}'' ''0'' [])"
  "basescanApi exEnvInfo addrImpl k = Some (exRecord ''Bar'' ''contract Bar {}'' ''0'' [])"
  "basescanApi exEnvNull addrImpl k = Some (exRecord ''Bar'' ''contract Bar {}'' ''0'' [])"
  "basescanApi exEnvUnwritable addrImpl k = Some (exRecord ''Bar'' ''contract Bar {}'' ''0'' [])"
  by (simp_all add: exEnv_def exEnvInfo_def exEnvNull_def exEnvUnwritable_def)

lemma exBar_chunks: "analyzedChunks exBar = [''contract Bar {}'']"
  by (simp add: analyzedChunks_def exBar_def MAX_SOURCE_LENGTH_def)

lemma ex_outputs:
  "analyzerOutput exEnv n c v = [JsonObject exCritical, JsonObject exLow]"
  "analyzerOutput exEnvUnwritable n c v = [JsonObject exCritical, JsonObject exLow]"
  "analyzerOutput exEnvInfo n c v = [JsonObject exInfo]"
  "analyzerOutput exEnvNull n c v = [JsonObject exCritical, JsonNull]"
  by (simp_all add: analyzerOutput_def exEnv_def exEnvInfo_def exEnvNull_def exEnvUnwritable_def
      ex_jsonMatch)

lemma ex_confidences:
  "atLeastThreshold (confidenceThreshold exConfig) exCritical"
  "\<not> atLeastThreshold (confidenceThreshold exConfig) exLow"
  "atLeastThreshold (confidenceThreshold exConfig) exInfo"
  by (simp_all add: atLeastThreshold_def exCritical_def exLow_def exInfo_def exConfig_def)

lemma ex_kept:
  "keptFindings exEnv exConfig exBar = [exCritical]"
  "keptFindings exEnvUnwritable exConfig exBar = [exCritical]"
  "keptFindings exEnvInfo exConfig exBar = [exInfo]"
  "keptFindings exEnvNull exConfig exBar = []"
  by (simp_all add: keptFindings_def exBar_chunks ex_outputs confidentFindings_def objectsOf_def
      ex_confidences)



lemma addrImpl_clean: "toLowerCase (trim addrImpl) = addrImpl"
  by (simp add: toLowerCase_def trim_def isSpace_def lowerChar_def addrImpl_def)

lemma addrImpl_valid: "validAddress addrImpl"
  by (simp add: validAddress_def isHexDigit_def addrImpl_def)

lemma ex_deployed: "contractAddress (exDeployment a) = a"
  by (simp add: exDeployment_def)

lemma ex_key: "basescanApiKey exConfig = ''KEY''"
  by (simp add: exConfig_def)





section \<open>The pipeline on a deployment that is already audited, or has no source\<close>

text \<open>
  C2 (as amended). For every deployment whose address already has a report in the store,
  \<open>processContract\<close> returns with the world as it was: no new report, no request to the
  source API, no text sent to the analyzer, and no counter changed, neither the skipped
  nor the audited one.
\<close>

theorem already_audited_is_dropped:
  assumes "getAuditByAddress (store w) (contractAddress d) = Some existing"
  shows "processContract env config fresh d w = Some (Returned, w)"
  using assms by (simp add: processContract_def)

lemma exWorldWith_lookup:
  "getAuditByAddress (store (exWorldWith a)) a =
     Some (minimalReport \<lparr>uuidv4 = ''id-1'', dateNow = (\<lambda>k. 1600000000000)\<rparr> (exDeployment a))"
  using getAuditByAddress_saveAudit[of exEnv "minimalReport \<lparr>uuidv4 = ''id-1'', dateNow = (\<lambda>k. 1600000000000)\<rparr> (exDeployment a)" "''./data''" "store exWorld"]
  by (simp add: exWorldWith_def minimalReport_def exDeployment_def)

text \<open>A deployment whose address has a report: it is dropped and the world is unchanged.\<close>

theorem already_audited_is_dropped_witness:
  "getAuditByAddress (store (exWorldWith addrImpl)) (contractAddress (exDeployment addrImpl)) \<noteq> None
   \<and> processContract exEnv exConfig exFresh (exDeployment addrImpl) (exWorldWith addrImpl)
       = Some (Returned, exWorldWith addrImpl)"
proof -
  have h: "getAuditByAddress (store (exWorldWith addrImpl)) (contractAddress (exDeployment addrImpl)) =
      Some (minimalReport \<lparr>uuidv4 = ''id-1'', dateNow = (\<lambda>k. 1600000000000)\<rparr> (exDeployment addrImpl))"
    using exWorldWith_lookup[of addrImpl] by (simp add: exDeployment_def)
  show ?thesis using h already_audited_is_dropped[OF h] by simp
qed

text \<open>
  C2 as stated fails: the claim has the skipped counter incremented for a duplicate, and
  the code leaves it as it is.
\<close>

theorem duplicate_not_counted_as_skipped:
  "map_option (\<lambda>res. contractsSkipped (monitorState (snd res)))
      (processContract exEnv exConfig exFresh (exDeployment addrImpl) (exWorldWith addrImpl))
   \<noteq> Some (contractsSkipped (monitorState (exWorldWith addrImpl)) + 1)"
proof -
  have h: "getAuditByAddress (store (exWorldWith addrImpl)) (contractAddress (exDeployment addrImpl)) =
      Some (minimalReport \<lparr>uuidv4 = ''id-1'', dateNow = (\<lambda>k. 1600000000000)\<rparr> (exDeployment addrImpl))"
    using exWorldWith_lookup[of addrImpl] by (simp add: exDeployment_def)
  show ?thesis by (simp add: processContract_def h)
qed




lemma ex_fetch_unknown:
  "getContractSource exEnv addrUnverified ''KEY'' = Some (None, [addrUnverified])"
  "getContractSource exEnvUnwritable addrUnverified ''KEY'' = Some (None, [addrUnverified])"
  by (subst getContractSource.simps,
      simp add: exEnv_def exEnvUnwritable_def addrUnverified_def addrImpl_def addrProxy_def
        addrOuter_def addrLoop_def)+



section \<open>Proxy resolution\<close>

text \<open>
  C8. For every fetched record flagged as a proxy whose implementation address is known
  and whose implementation's source the fetch returns, the source text returned is the
  implementation's code after two comment lines that name the proxy address and the
  implementation address, and the contract name is the proxy's name followed by
  \<open>(Proxy -> ImplName)\<close>.
\<close>

theorem proxy_source_is_spliced:
  assumes "basescanApi env address apiKey = Some data"
    and "result data = r # rs"
    and "status data = ''1''"
    and "SourceCode r \<noteq> []"
    and "Proxy r = ''1''"
    and "Implementation r = impl"
    and "impl \<noteq> []"
    and "getContractSource env impl apiKey = Some (Some implSource, calls)"
  shows "\<exists>cs. getContractSource env address apiKey = Some (Some cs, address # calls)
           \<and> sourceCode cs =
               ''// PROXY CONTRACT: '' @ address @ [NL] @
               ''// IMPLEMENTATION: '' @ impl @ [NL, NL] @ sourceCode implSource
           \<and> src_contractName cs =
               orElse (ContractName r) ''Unknown'' @ '' (Proxy -> '' @ src_contractName implSource @ '')''"
proof -
  let ?cs = "makeContractSource env address r"
  have f: "implementationAddress ?cs = Some impl" "isProxy ?cs"
    "src_contractName ?cs = orElse (ContractName r) ''Unknown''"
    using assms by (simp_all add: makeContractSource_def)
  have "getContractSource env address apiKey =
      Some (Some (spliceImplementation address impl ?cs (Some implSource)), address # calls)"
    by (subst getContractSource.simps) (simp add: assms f Let_def)
  then show ?thesis by (simp add: spliceImplementation_def f)
qed

lemma ex_fetch_proxy_hyp:
  "basescanApi exEnv addrProxy ''KEY'' = Some (exRecord ''Foo'' ''contract Foo {}'' ''1'' addrImpl)"
  by (simp add: exEnv_def addrProxy_def addrImpl_def)

text \<open>
  The scenario of the specification: the proxy \<open>Foo\<close> with the implementation \<open>Bar\<close>.
\<close>

theorem proxy_source_is_spliced_witness:
  "map_option (\<lambda>x. (status x, map (\<lambda>r. (SourceCode r, Proxy r, Implementation r)) (result x)))
       (basescanApi exEnv addrProxy ''KEY'')
     = Some (''1'', [(''contract Foo {}'', ''1'', addrImpl)])
   \<and> map_option (\<lambda>x. map_option sourceCode (fst x)) (getContractSource exEnv addrImpl ''KEY'')
       = Some (Some ''contract Bar {}'')
   \<and> map_option (\<lambda>x. (map_option (\<lambda>cs. (sourceCode cs, src_contractName cs)) (fst x), snd x))
        (getContractSource exEnv addrProxy ''KEY'')
     = Some (Some (''// PROXY CONTRACT: 0xbbbbbbbbbbbbbbbbbbbbbbbbbbbbbbbbbbbbbbbb'' @ [NL] @
                   ''// IMPLEMENTATION: 0xaaaaaaaaaaaaaaaaaaaaaaaaaaaaaaaaaaaaaaaa'' @ [NL, NL] @
                   ''contract Bar {}'',
                   ''Foo (Proxy -> Bar)''),
             [addrProxy, addrImpl])"
proof -
  let ?src = "makeContractSource exEnv addrImpl (hd (result (exRecord ''Bar'' ''contract Bar {}'' ''0'' [])))"
  let ?r = "hd (result (exRecord ''Foo'' ''contract Foo {}'' ''1'' addrImpl))"
  have r: "result (exRecord ''Foo'' ''contract Foo {}'' ''1'' addrImpl) = ?r # []"
    "status (exRecord ''Foo'' ''contract Foo {}'' ''1'' addrImpl) = ''1''"
    "SourceCode ?r \<noteq> []" "Proxy ?r = ''1''" "Implementation ?r = addrImpl" "addrImpl \<noteq> []"
    "ContractName ?r = ''Foo''" "SourceCode ?r = ''contract Foo {}''"
    by (simp_all add: exRecord_def addrImpl_def)
  have s: "sourceCode ?src = ''contract Bar {}''" "src_contractName ?src = ''Bar''"
    by (simp_all add: makeContractSource_def exRecord_def normalizeSource_def startsWith_def orElse_def)
  from proxy_source_is_spliced[OF ex_fetch_proxy_hyp r(1) r(2) r(3) r(4) r(5) r(6) ex_fetch_impl]
  obtain cs where a: "getContractSource exEnv addrProxy ''KEY'' = Some (Some cs, [addrProxy, addrImpl])"
    and b: "sourceCode cs = ''// PROXY CONTRACT: '' @ addrProxy @ [NL] @
               ''// IMPLEMENTATION: '' @ addrImpl @ [NL, NL] @ sourceCode ?src"
      "src_contractName cs = orElse (ContractName ?r) ''Unknown'' @ '' (Proxy -> '' @ src_contractName ?src @ '')''"
    by blast
  have g1: "map_option (\<lambda>x. (status x, map (\<lambda>r. (SourceCode r, Proxy r, Implementation r)) (result x)))
       (basescanApi exEnv addrProxy ''KEY'') = Some (''1'', [(''contract Foo {}'', ''1'', addrImpl)])"
    unfolding ex_fetch_proxy_hyp by (simp add: exRecord_def)
  have g2: "map_option (\<lambda>x. map_option sourceCode (fst x)) (getContractSource exEnv addrImpl ''KEY'')
       = Some (Some ''contract Bar {}'')"
    unfolding ex_fetch_impl by (simp add: s)
  have g3: "map_option (\<lambda>x. (map_option (\<lambda>cs. (sourceCode cs, src_contractName cs)) (fst x), snd x))
        (getContractSource exEnv addrProxy ''KEY'')
     = Some (Some (''// PROXY CONTRACT: 0xbbbbbbbbbbbbbbbbbbbbbbbbbbbbbbbbbbbbbbbb'' @ [NL] @
                   ''// IMPLEMENTATION: 0xaaaaaaaaaaaaaaaaaaaaaaaaaaaaaaaaaaaaaaaa'' @ [NL, NL] @
                   ''contract Bar {}'',
                   ''Foo (Proxy -> Bar)''),
             [addrProxy, addrImpl])"
    unfolding a by (simp add: b s r(7) orElse_def) (simp add: addrProxy_def addrImpl_def)
  show ?thesis using g1 g2 g3 by blast
qed

lemma fetch_no_target:
  assumes "proxyTarget env address apiKey = None"
  shows "\<exists>r. getContractSource env address apiKey = Some (r, [address])"
  using assms
  by (subst getContractSource.simps)
     (auto simp: proxyTarget_def makeContractSource_def Let_def
           split: option.splits list.splits if_splits)

lemma fetch_target:
  assumes "proxyTarget env address apiKey = Some impl"
  shows "\<exists>cs. getContractSource env address apiKey =
           Option.bind (getContractSource env impl apiKey)
             (\<lambda>x. Some (Some (spliceImplementation address impl cs (fst x)), address # snd x))"
  using assms
  by (subst getContractSource.simps)
     (auto simp: proxyTarget_def makeContractSource_def Let_def
           split: option.splits list.splits if_splits)

text \<open>
  C4 (as amended). Proxy resolution follows the chain of implementation records for as
  many hops as the chain has: an implementation's record that is itself flagged as a
  proxy with an implementation address is resolved in turn. When the chain that starts
  at the address ends after \<open>n\<close> hops, the fetch returns, having requested the addresses
  of the chain, one request each, in order.
\<close>

theorem fetch_follows_proxy_chain:
  assumes "proxyChain env apiKey n address = Some chain"
  shows "\<exists>r. getContractSource env address apiKey = Some (r, chain)"
  using assms
proof (induction n arbitrary: address chain)
  case 0
  then show ?case using fetch_no_target[of env address apiKey]
    by (auto split: option.splits)
next
  case (Suc n)
  show ?case
  proof (cases "proxyTarget env address apiKey")
    case None
    then show ?thesis using Suc.prems fetch_no_target[of env address apiKey] by auto
  next
    case (Some impl)
    with Suc.prems obtain rest where rest: "proxyChain env apiKey n impl = Some rest"
      and chain: "chain = address # rest"
      by auto
    from Suc.IH[OF rest] obtain r where "getContractSource env impl apiKey = Some (r, rest)" by blast
    then show ?thesis using fetch_target[OF Some] chain by auto
  qed
qed

lemma fetch_loop_never_returns:
  assumes "proxyTarget env address apiKey = Some address"
  shows "getContractSource env address apiKey = None"
proof (cases "getContractSource env address apiKey")
  case None
  then show ?thesis .
next
  case (Some y)
  have "proxyTarget env address apiKey \<noteq> Some address"
    apply (rule getContractSource.raw_induct
        [where P = "\<lambda>e a k y. proxyTarget e a k \<noteq> Some a" and env = env and address = address
           and apiKey = apiKey and y = y])
    subgoal premises prems for f e a k y'
    proof
      assume t: "proxyTarget e a k = Some a"
      then obtain z where "f e a k = Some z"
        using prems(2)
        by (auto simp: proxyTarget_def makeContractSource_def Let_def Option.bind_eq_Some_conv
            split: option.splits list.splits if_splits)
      from prems(1)[OF this] t show False by simp
    qed
    by (rule Some)
  with assms show ?thesis by simp
qed

lemma ex_addr_nonempty: "addrImpl \<noteq> []" "addrProxy \<noteq> []" "addrOuter \<noteq> []" "addrLoop \<noteq> []"
  by (simp_all add: addrImpl_def addrProxy_def addrOuter_def addrLoop_def)

lemma ex_api_outer:
  "basescanApi exEnv addrOuter ''KEY'' = Some (exRecord ''Outer'' ''contract Outer {}'' ''1'' addrProxy)"
  by (simp add: exEnv_def addrProxy_def addrImpl_def addrOuter_def)

lemma ex_api_loop:
  "basescanApi exEnv addrLoop ''KEY'' = Some (exRecord ''Loop'' ''contract Loop {}'' ''1'' addrLoop)"
  by (simp add: exEnv_def addrProxy_def addrImpl_def addrOuter_def addrLoop_def)

lemma ex_api_impl:
  "basescanApi exEnv addrImpl ''KEY'' = Some (exRecord ''Bar'' ''contract Bar {}'' ''0'' [])"
  by (simp add: exEnv_def)

lemma ex_targets:
  "proxyTarget exEnv addrOuter ''KEY'' = Some addrProxy"
  "proxyTarget exEnv addrProxy ''KEY'' = Some addrImpl"
  "proxyTarget exEnv addrImpl ''KEY'' = None"
  "proxyTarget exEnv addrLoop ''KEY'' = Some addrLoop"
  by (simp_all add: proxyTarget_def ex_api_outer ex_fetch_proxy_hyp ex_api_impl ex_api_loop exRecord_def)
     (simp_all add: addrProxy_def addrImpl_def addrLoop_def)

lemma ex_fetch_proxy_name:
  "map_option (\<lambda>x. (map_option src_contractName (fst x), snd x)) (getContractSource exEnv addrProxy ''KEY'')
     = Some (Some ''Foo (Proxy -> Bar)'', [addrProxy, addrImpl])"
  by (subst getContractSource.simps)
     (simp add: ex_fetch_proxy_hyp exRecord_def makeContractSource_def ex_fetch_impl
        spliceImplementation_def orElse_def ex_addr_nonempty)

text \<open>
  C4 as stated fails. The implementation \<open>Foo\<close> of the proxy \<open>Outer\<close> is treated as a
  further proxy: the fetch makes three requests, two levels deep. On the proxy \<open>Loop\<close>,
  whose implementation is itself, the fetch never returns.
\<close>

theorem nested_proxy_is_resolved_and_cycle_never_returns:
  "map_option (\<lambda>x. (map_option src_contractName (fst x), snd x)) (getContractSource exEnv addrOuter ''KEY'')
     = Some (Some ''Outer (Proxy -> Foo (Proxy -> Bar))'', [addrOuter, addrProxy, addrImpl])
   \<and> getContractSource exEnv addrLoop ''KEY'' = None"
proof -
  obtain x where x: "getContractSource exEnv addrProxy ''KEY'' = Some x"
    "map_option src_contractName (fst x) = Some ''Foo (Proxy -> Bar)''" "snd x = [addrProxy, addrImpl]"
    using ex_fetch_proxy_name by auto
  then obtain cs where cs: "fst x = Some cs" "src_contractName cs = ''Foo (Proxy -> Bar)''" by auto
  have "map_option (\<lambda>x. (map_option src_contractName (fst x), snd x)) (getContractSource exEnv addrOuter ''KEY'')
     = Some (Some ''Outer (Proxy -> Foo (Proxy -> Bar))'', [addrOuter, addrProxy, addrImpl])"
    by (subst getContractSource.simps)
       (simp add: ex_api_outer exRecord_def makeContractSource_def x cs
          spliceImplementation_def orElse_def ex_addr_nonempty)
  moreover have "getContractSource exEnv addrLoop ''KEY'' = None"
    using ex_targets(4) by (rule fetch_loop_never_returns)
  ultimately show ?thesis by simp
qed

text \<open>The chain of \<open>Outer\<close> ends after two hops, and the fetch requests its three addresses.\<close>

theorem fetch_follows_proxy_chain_witness:
  "proxyChain exEnv ''KEY'' 2 addrOuter = Some [addrOuter, addrProxy, addrImpl]
   \<and> map_option snd (getContractSource exEnv addrOuter ''KEY'') = Some [addrOuter, addrProxy, addrImpl]"
proof -
  have h: "proxyChain exEnv ''KEY'' 2 addrOuter = Some [addrOuter, addrProxy, addrImpl]"
    by (simp add: numeral_2_eq_2 ex_targets)
  from fetch_follows_proxy_chain[OF h] show ?thesis using h by auto
qed

section \<open>The on-demand audit and an existing report\<close>

lemma postAudit_cached_iff:
  "postAudit env config fresh body w = Some (Cached r, w')
     \<longleftrightarrow> w' = w \<and> (\<exists>address. body = Some address \<and> address \<noteq> []
                      \<and> validAddress (toLowerCase (trim address))
                      \<and> getAuditByAddress (store w) (toLowerCase (trim address)) = Some r
                      \<and> sourceAvailable r)"
proof (cases body)
  case None
  then show ?thesis by (simp add: postAudit_def)
next
  case (Some address)
  let ?a = "toLowerCase (trim address)"
  show ?thesis
  proof (cases "address \<noteq> [] \<and> validAddress ?a")
    case False
    then show ?thesis using Some by (auto simp: postAudit_def Let_def)
  next
    case True
    show ?thesis
    proof (cases "getAuditByAddress (store w) ?a")
      case None
      then show ?thesis using Some True
        by (auto simp: postAudit_def Let_def Option.bind_eq_Some_conv split: option.splits)
    next
      case existing: (Some x)
      show ?thesis
      proof (cases "sourceAvailable x")
        case True
        then show ?thesis using Some \<open>address \<noteq> [] \<and> validAddress ?a\<close> existing
          by (auto simp: postAudit_def Let_def)
      next
        case False
        then show ?thesis using Some True existing
          by (auto simp: postAudit_def Let_def Option.bind_eq_Some_conv split: option.splits)
      qed
    qed
  qed
qed

lemma postAudit_no_source:
  assumes "address \<noteq> []" and "validAddress (toLowerCase (trim address))"
    and "map_option sourceAvailable (getAuditByAddress (store w) (toLowerCase (trim address))) \<noteq> Some True"
  shows "getContractSource env (toLowerCase (trim address)) (basescanApiKey config) = None
           \<longrightarrow> postAudit env config fresh (Some address) w = None"
    and "getContractSource env (toLowerCase (trim address)) (basescanApiKey config) = Some (None, calls)
           \<longrightarrow> postAudit env config fresh (Some address) w
                 = Some (NotVerified (toLowerCase (trim address)),
                         w\<lparr>basescanCalls := basescanCalls w @ calls\<rparr>)"
proof -
  let ?a = "toLowerCase (trim address)"
  have cache: "(case getAuditByAddress (store w) ?a of
                  Some existing \<Rightarrow> if sourceAvailable existing then Some existing else None
                | None \<Rightarrow> None) = None"
    using assms(3) by (auto split: option.splits)
  show "getContractSource env ?a (basescanApiKey config) = None
           \<longrightarrow> postAudit env config fresh (Some address) w = None"
    using assms(1,2) by (simp add: postAudit_def Let_def cache)
  show "getContractSource env ?a (basescanApiKey config) = Some (None, calls)
           \<longrightarrow> postAudit env config fresh (Some address) w
                 = Some (NotVerified ?a, w\<lparr>basescanCalls := basescanCalls w @ calls\<rparr>)"
    using assms(1,2) by (simp add: postAudit_def Let_def cache)
qed

text \<open>
  C10. The on-demand endpoint answers a request as cached exactly when the body holds a
  well-formed address, the address has a report, and that report has
  \<open>sourceAvailable = true\<close>; the answer is that report, and nothing is fetched, analyzed
  or stored. When the report of the address has \<open>sourceAvailable = false\<close>, the request
  fetches the source afresh: if the fetch finds no verified source, the answer is 404
  and the store is as it was; if it returns a source, the source is analyzed and the new
  report replaces the entry of the address index, and the answer is the new report, or
  500 when the report file cannot be written; if the fetch never returns, neither does
  the request. The monitor pipeline drops a deployment whose address has any report.
\<close>

theorem on_demand_cache_needs_source:
  "(postAudit env config fresh body w = Some (Cached r, w')
      \<longleftrightarrow> w' = w \<and> (\<exists>address. body = Some address \<and> address \<noteq> []
                       \<and> validAddress (toLowerCase (trim address))
                       \<and> getAuditByAddress (store w) (toLowerCase (trim address)) = Some r
                       \<and> sourceAvailable r))
   \<and> (address \<noteq> [] \<and> validAddress (toLowerCase (trim address))
      \<and> getAuditByAddress (store w) (toLowerCase (trim address)) = Some existing
      \<and> \<not> sourceAvailable existing
     \<longrightarrow> (getContractSource env (toLowerCase (trim address)) (basescanApiKey config) = None
           \<longrightarrow> postAudit env config fresh (Some address) w = None)
       \<and> (getContractSource env (toLowerCase (trim address)) (basescanApiKey config) = Some (None, calls)
           \<longrightarrow> postAudit env config fresh (Some address) w
                 = Some (NotVerified (toLowerCase (trim address)),
                         w\<lparr>basescanCalls := basescanCalls w @ calls\<rparr>))
       \<and> (getContractSource env (toLowerCase (trim address)) (basescanApiKey config)
             = Some (Some source, calls)
           \<longrightarrow> (\<exists>audit w1. postAudit env config fresh (Some address) w
                    = Some (if fileWritable env (dataDir config, uuidv4 fresh @ ''.json'')
                            then Success audit else AnalysisFailed, w1)
                  \<and> sourceAvailable audit
                  \<and> findings audit = analyzeContract env config source
                  \<and> getAuditByAddress (store w1) (toLowerCase (trim address)) = Some audit
                  \<and> basescanCalls w1 = basescanCalls w @ calls
                  \<and> analyzerCalls w1 = analyzerCalls w @ analyzedChunks source)))
   \<and> (getAuditByAddress (store w) (contractAddress d) = Some existing
     \<longrightarrow> processContract env config fresh d w = Some (Returned, w))"
proof (intro conjI impI)
  show "postAudit env config fresh body w = Some (Cached r, w')
      \<longleftrightarrow> w' = w \<and> (\<exists>address. body = Some address \<and> address \<noteq> []
                       \<and> validAddress (toLowerCase (trim address))
                       \<and> getAuditByAddress (store w) (toLowerCase (trim address)) = Some r
                       \<and> sourceAvailable r)"
    by (rule postAudit_cached_iff)
next
  let ?a = "toLowerCase (trim address)"
  assume h: "address \<noteq> [] \<and> validAddress ?a
      \<and> getAuditByAddress (store w) ?a = Some existing \<and> \<not> sourceAvailable existing"
  then have h1: "address \<noteq> []" and h2: "validAddress ?a"
    and h3: "map_option sourceAvailable (getAuditByAddress (store w) ?a) \<noteq> Some True"
    by simp_all
  assume "getContractSource env ?a (basescanApiKey config) = None"
  then show "postAudit env config fresh (Some address) w = None"
    using postAudit_no_source(1)[OF h1 h2 h3] by blast
next
  let ?a = "toLowerCase (trim address)"
  assume h: "address \<noteq> [] \<and> validAddress ?a
      \<and> getAuditByAddress (store w) ?a = Some existing \<and> \<not> sourceAvailable existing"
  then have h1: "address \<noteq> []" and h2: "validAddress ?a"
    and h3: "map_option sourceAvailable (getAuditByAddress (store w) ?a) \<noteq> Some True"
    by simp_all
  assume "getContractSource env ?a (basescanApiKey config) = Some (None, calls)"
  then show "postAudit env config fresh (Some address) w
      = Some (NotVerified ?a, w\<lparr>basescanCalls := basescanCalls w @ calls\<rparr>)"
    using postAudit_no_source(2)[OF h1 h2 h3] by blast
next
  let ?a = "toLowerCase (trim address)"
  let ?audit = "onDemandReport env fresh ?a source (analyzeContract env config source)"
  assume h: "address \<noteq> [] \<and> validAddress ?a
      \<and> getAuditByAddress (store w) ?a = Some existing \<and> \<not> sourceAvailable existing"
  then have h1: "address \<noteq> []" and h2: "validAddress ?a"
    and h3: "map_option sourceAvailable (getAuditByAddress (store w) ?a) \<noteq> Some True"
    by simp_all
  assume h4: "getContractSource env ?a (basescanApiKey config) = Some (Some source, calls)"
  from postAudit_source[OF h1 h2 h3 h4, of fresh]
  obtain w1 where run: "postAudit env config fresh (Some address) w =
             Some (if fileWritable env (dataDir config, uuidv4 fresh @ ''.json'')
                   then Success ?audit else AnalysisFailed, w1)"
    and look: "getAuditByAddress (store w1) ?a = Some ?audit"
    and logs: "basescanCalls w1 = basescanCalls w @ calls"
      "analyzerCalls w1 = analyzerCalls w @ analyzedChunks source"
    by blast
  have props: "sourceAvailable ?audit" "findings ?audit = analyzeContract env config source"
    by (simp_all add: onDemandReport_def)
  show "\<exists>audit w1. postAudit env config fresh (Some address) w
                    = Some (if fileWritable env (dataDir config, uuidv4 fresh @ ''.json'')
                            then Success audit else AnalysisFailed, w1)
                  \<and> sourceAvailable audit
                  \<and> findings audit = analyzeContract env config source
                  \<and> getAuditByAddress (store w1) ?a = Some audit
                  \<and> basescanCalls w1 = basescanCalls w @ calls
                  \<and> analyzerCalls w1 = analyzerCalls w @ analyzedChunks source"
    using run look logs props by blast
next
  assume "getAuditByAddress (store w) (contractAddress d) = Some existing"
  then show "processContract env config fresh d w = Some (Returned, w)"
    by (simp add: processContract_def)
qed

lemma ex_addr_clean:
  "toLowerCase (trim addrUnverified) = addrUnverified" "toLowerCase (trim addrLoop) = addrLoop"
  by (simp_all add: toLowerCase_def trim_def isSpace_def lowerChar_def addrUnverified_def addrLoop_def)

lemma ex_addr_valid: "validAddress addrUnverified" "validAddress addrLoop"
  by (simp_all add: validAddress_def isHexDigit_def addrUnverified_def addrLoop_def)

lemma exWorldAudited_lookup:
  "getAuditByAddress (store (exWorldAudited a)) a =
     Some ((minimalReport \<lparr>uuidv4 = ''id-1'', dateNow = (\<lambda>k. 1600000000000)\<rparr> (exDeployment a))\<lparr>sourceAvailable := True\<rparr>)"
  using getAuditByAddress_saveAudit[of exEnv "(minimalReport \<lparr>uuidv4 = ''id-1'', dateNow = (\<lambda>k. 1600000000000)\<rparr> (exDeployment a))\<lparr>sourceAvailable := True\<rparr>" "''./data''" "store exWorld"]
  by (simp add: exWorldAudited_def minimalReport_def exDeployment_def)

lemma exWorldWith_calls: "basescanCalls (exWorldWith a) = []"
  by (simp add: exWorldWith_def exWorld_def)

text \<open>
  An address whose report has its source: the report is returned as cached, and the
  world is as it was. Addresses whose report has no source: for the address that the
  source API does not know, the answer is 404 after one request; for the contract \<open>Bar\<close>
  the request fetches and analyzes, the answer is the new report, or 500 in the data
  directory that cannot be written, and in both the new report is the one the address
  index holds afterwards; for the proxy \<open>Loop\<close> the request never returns. The monitor
  pipeline drops the deployment of \<open>Bar\<close>.
\<close>

theorem on_demand_cache_needs_source_witness:
  "postAudit exEnv exConfig exFresh (Some addrImpl) (exWorldAudited addrImpl)
     = Some (Cached ((minimalReport \<lparr>uuidv4 = ''id-1'', dateNow = (\<lambda>k. 1600000000000)\<rparr> (exDeployment addrImpl))\<lparr>sourceAvailable := True\<rparr>),
             exWorldAudited addrImpl)
   \<and> map_option sourceAvailable (getAuditByAddress (store (exWorldWith addrUnverified)) addrUnverified) = Some False
   \<and> postAudit exEnv exConfig exFresh (Some addrUnverified) (exWorldWith addrUnverified)
     = Some (NotVerified addrUnverified, (exWorldWith addrUnverified)\<lparr>basescanCalls := [addrUnverified]\<rparr>)
   \<and> map_option sourceAvailable (getAuditByAddress (store (exWorldWith addrImpl)) addrImpl) = Some False
   \<and> map_option (\<lambda>res. (case fst res of Success audit \<Rightarrow> Some (sourceAvailable audit, findings audit) | _ \<Rightarrow> None,
                          map_option sourceAvailable (getAuditByAddress (store (snd res)) addrImpl),
                          basescanCalls (snd res)))
        (postAudit exEnv exConfig exFresh (Some addrImpl) (exWorldWith addrImpl))
     = Some (Some (True, [exCritical]), Some True, [addrImpl])
   \<and> map_option (\<lambda>res. (fst res,
                          map_option (\<lambda>r. (sourceAvailable r, findings r))
                            (getAuditByAddress (store (snd res)) addrImpl)))
        (postAudit exEnvUnwritable exConfig exFresh (Some addrImpl) (exWorldWith addrImpl))
     = Some (AnalysisFailed, Some (True, [exCritical]))
   \<and> map_option sourceAvailable (getAuditByAddress (store (exWorldWith addrLoop)) addrLoop) = Some False
   \<and> postAudit exEnv exConfig exFresh (Some addrLoop) (exWorldWith addrLoop) = None
   \<and> processContract exEnv exConfig exFresh (exDeployment addrImpl) (exWorldWith addrImpl)
     = Some (Returned, exWorldWith addrImpl)"
proof -
  let ?old = "\<lambda>a. minimalReport \<lparr>uuidv4 = ''id-1'', dateNow = (\<lambda>k. 1600000000000)\<rparr> (exDeployment a)"
  have old: "\<And>a. \<not> sourceAvailable (?old a)" by (simp add: minimalReport_def)
  have new: "sourceAvailable ((?old addrImpl)\<lparr>sourceAvailable := True\<rparr>)" by simp
  have ne: "addrImpl \<noteq> []" "addrUnverified \<noteq> []" "addrLoop \<noteq> []"
    by (simp_all add: addrImpl_def addrUnverified_def addrLoop_def)
  have nw: "\<not> fileWritable exEnvUnwritable (dataDir exConfig, uuidv4 exFresh @ ''.json'')"
    by (simp add: exEnvUnwritable_def)
  have l1: "map_option sourceAvailable (getAuditByAddress (store (exWorldWith addrUnverified)) addrUnverified) = Some False"
    and l2: "map_option sourceAvailable (getAuditByAddress (store (exWorldWith addrImpl)) addrImpl) = Some False"
    and l3: "map_option sourceAvailable (getAuditByAddress (store (exWorldWith addrLoop)) addrLoop) = Some False"
    by (simp_all add: exWorldWith_lookup old)

  note cached = on_demand_cache_needs_source[where body="Some addrImpl" and w="exWorldAudited addrImpl"
      and w'="exWorldAudited addrImpl" and r="(?old addrImpl)\<lparr>sourceAvailable := True\<rparr>"
      and env=exEnv and config=exConfig and fresh=exFresh, THEN conjunct1]
  have p1: "postAudit exEnv exConfig exFresh (Some addrImpl) (exWorldAudited addrImpl)
      = Some (Cached ((?old addrImpl)\<lparr>sourceAvailable := True\<rparr>), exWorldAudited addrImpl)"
    unfolding cached using ne(1) addrImpl_valid exWorldAudited_lookup[of addrImpl] new
    by (simp add: addrImpl_clean)

  have hu: "addrUnverified \<noteq> [] \<and> validAddress (toLowerCase (trim addrUnverified))
      \<and> getAuditByAddress (store (exWorldWith addrUnverified)) (toLowerCase (trim addrUnverified)) = Some (?old addrUnverified)
      \<and> \<not> sourceAvailable (?old addrUnverified)"
    using ne(2) ex_addr_valid(1) exWorldWith_lookup[of addrUnverified] old[of addrUnverified]
    by (simp add: ex_addr_clean)
  note unknown = on_demand_cache_needs_source[where address=addrUnverified and w="exWorldWith addrUnverified"
      and existing="?old addrUnverified" and env=exEnv and config=exConfig and fresh=exFresh
      and calls="[addrUnverified]", THEN conjunct2, THEN conjunct1, THEN mp, OF hu,
      THEN conjunct2, THEN conjunct1, THEN mp]
  have p2: "postAudit exEnv exConfig exFresh (Some addrUnverified) (exWorldWith addrUnverified)
      = Some (NotVerified addrUnverified, (exWorldWith addrUnverified)\<lparr>basescanCalls := [addrUnverified]\<rparr>)"
    using unknown ex_fetch_unknown(1) by (simp add: ex_addr_clean ex_key exWorldWith_calls)

  have hi: "addrImpl \<noteq> [] \<and> validAddress (toLowerCase (trim addrImpl))
      \<and> getAuditByAddress (store (exWorldWith addrImpl)) (toLowerCase (trim addrImpl)) = Some (?old addrImpl)
      \<and> \<not> sourceAvailable (?old addrImpl)"
    using ne(1) addrImpl_valid exWorldWith_lookup[of addrImpl] old[of addrImpl]
    by (simp add: addrImpl_clean)
  have f1: "getContractSource exEnv (toLowerCase (trim addrImpl)) (basescanApiKey exConfig)
      = Some (Some exBar, [addrImpl])"
    unfolding addrImpl_clean ex_key by (rule fetch_bar[OF ex_api_bar(1)])
  have f2: "getContractSource exEnvUnwritable (toLowerCase (trim addrImpl)) (basescanApiKey exConfig)
      = Some (Some exBar, [addrImpl])"
    unfolding addrImpl_clean ex_key by (rule fetch_bar[OF ex_api_bar(4)])
  from on_demand_cache_needs_source[where address=addrImpl and w="exWorldWith addrImpl"
      and existing="?old addrImpl" and env=exEnv and config=exConfig and fresh=exFresh
      and source=exBar and calls="[addrImpl]", THEN conjunct2, THEN conjunct1, THEN mp, OF hi,
      THEN conjunct2, THEN conjunct2, THEN mp, OF f1]
  obtain audit w1 where a: "postAudit exEnv exConfig exFresh (Some addrImpl) (exWorldWith addrImpl)
        = Some (if fileWritable exEnv (dataDir exConfig, uuidv4 exFresh @ ''.json'')
                then Success audit else AnalysisFailed, w1)"
    and b: "sourceAvailable audit" "findings audit = analyzeContract exEnv exConfig exBar"
      "getAuditByAddress (store w1) (toLowerCase (trim addrImpl)) = Some audit"
      "basescanCalls w1 = basescanCalls (exWorldWith addrImpl) @ [addrImpl]"
    by blast
  have p3: "map_option (\<lambda>res. (case fst res of Success audit \<Rightarrow> Some (sourceAvailable audit, findings audit) | _ \<Rightarrow> None,
                          map_option sourceAvailable (getAuditByAddress (store (snd res)) addrImpl),
                          basescanCalls (snd res)))
        (postAudit exEnv exConfig exFresh (Some addrImpl) (exWorldWith addrImpl))
     = Some (Some (True, [exCritical]), Some True, [addrImpl])"
    using b unfolding a addrImpl_clean
    by (simp add: ex_writable analyzeContract_kept ex_kept exWorldWith_calls)
  from on_demand_cache_needs_source[where address=addrImpl and w="exWorldWith addrImpl"
      and existing="?old addrImpl" and env=exEnvUnwritable and config=exConfig and fresh=exFresh
      and source=exBar and calls="[addrImpl]", THEN conjunct2, THEN conjunct1, THEN mp, OF hi,
      THEN conjunct2, THEN conjunct2, THEN mp, OF f2]
  obtain audit' w2 where a': "postAudit exEnvUnwritable exConfig exFresh (Some addrImpl) (exWorldWith addrImpl)
        = Some (if fileWritable exEnvUnwritable (dataDir exConfig, uuidv4 exFresh @ ''.json'')
                then Success audit' else AnalysisFailed, w2)"
    and b': "sourceAvailable audit'" "findings audit' = analyzeContract exEnvUnwritable exConfig exBar"
      "getAuditByAddress (store w2) (toLowerCase (trim addrImpl)) = Some audit'"
    by blast
  have p4: "map_option (\<lambda>res. (fst res,
                          map_option (\<lambda>r. (sourceAvailable r, findings r))
                            (getAuditByAddress (store (snd res)) addrImpl)))
        (postAudit exEnvUnwritable exConfig exFresh (Some addrImpl) (exWorldWith addrImpl))
     = Some (AnalysisFailed, Some (True, [exCritical]))"
    using b' nw unfolding a' addrImpl_clean
    by (simp add: analyzeContract_kept ex_kept)

  have hl: "addrLoop \<noteq> [] \<and> validAddress (toLowerCase (trim addrLoop))
      \<and> getAuditByAddress (store (exWorldWith addrLoop)) (toLowerCase (trim addrLoop)) = Some (?old addrLoop)
      \<and> \<not> sourceAvailable (?old addrLoop)"
    using ne(3) ex_addr_valid(2) exWorldWith_lookup[of addrLoop] old[of addrLoop]
    by (simp add: ex_addr_clean)
  have f3: "getContractSource exEnv (toLowerCase (trim addrLoop)) (basescanApiKey exConfig) = None"
    unfolding ex_addr_clean ex_key by (rule fetch_loop_never_returns[OF ex_targets(4)])
  have p5: "postAudit exEnv exConfig exFresh (Some addrLoop) (exWorldWith addrLoop) = None"
    by (rule on_demand_cache_needs_source[where address=addrLoop and w="exWorldWith addrLoop"
      and existing="?old addrLoop" and env=exEnv and config=exConfig and fresh=exFresh,
      THEN conjunct2, THEN conjunct1, THEN mp, OF hl, THEN conjunct1, THEN mp, OF f3])

  have p6: "processContract exEnv exConfig exFresh (exDeployment addrImpl) (exWorldWith addrImpl)
      = Some (Returned, exWorldWith addrImpl)"
    using on_demand_cache_needs_source[where w="exWorldWith addrImpl" and existing="?old addrImpl"
        and d="exDeployment addrImpl" and env=exEnv and config=exConfig and fresh=exFresh,
        THEN conjunct2, THEN conjunct2, THEN mp]
      exWorldWith_lookup[of addrImpl] unfolding ex_deployed by blast
  show ?thesis using p1 l1 p2 l2 p3 p4 l3 p5 p6 by blast
qed

section \<open>The last-processed-block marker\<close>

text \<open>
  The block loop never writes the marker; the tick sets it to the chain's height whenever
  that is above the marker, whatever the loop did and whether or not a stop was
  requested. So the marker never decreases.
\<close>

lemma processBlock_marker:
  "lastProcessedBlock (state (processBlock chain n m)) = lastProcessedBlock (state m)"
proof -
  have "\<And>m. lastProcessedBlock (state (scanTransactions chain n b txs m)) = lastProcessedBlock (state m)" for b txs
    by (induction txs) (auto split: option.splits)
  then show ?thesis by (simp add: processBlock_def Let_def split: option.splits)
qed

lemma blockLoop_marker:
  "lastProcessedBlock (state (blockLoop chain toBlock blockNum m)) = lastProcessedBlock (state m)"
proof (induction chain toBlock blockNum m rule: blockLoop.induct)
  case (1 chain toBlock blockNum m)
  then show ?case by (subst blockLoop.simps) (simp add: processBlock_marker)
qed

lemma monitorTick_marker:
  "lastProcessedBlock (state (monitorTick chain m)) =
     (case getBlockNumber chain of
        None \<Rightarrow> lastProcessedBlock (state m)
      | Some currentBlock \<Rightarrow> max currentBlock (lastProcessedBlock (state m)))"
  by (simp add: monitorTick_def Let_def split: option.splits)

lemma monitorTick_marker_mono:
  "lastProcessedBlock (state m) \<le> lastProcessedBlock (state (monitorTick chain m))"
  by (simp add: monitorTick_marker split: option.splits)

text \<open>
  C1. The marker is at 10, the chain at 13, and a stop is requested while block 11 is
  processed. The loop exits after block 11: the blocks scanned are \<open>[11]\<close>, the one
  deployment queued is that of block 11, and the deployment in block 12 is not seen. The
  marker is nevertheless set to 13, over the blocks 12 and 13 that were never scanned.
\<close>

theorem stop_mid_range_marker_covers_unscanned_blocks:
  "scanned (monitorTick exChain exMonitor) = [11]
   \<and> map contractAddress (auditQueue (monitorTick exChain exMonitor)) = [addrImpl]
   \<and> stopRequested (monitorTick exChain exMonitor) = True
   \<and> lastProcessedBlock (state (monitorTick exChain exMonitor)) = 13"
proof -
  have p: "processBlock exChain 11 exMonitor =
      exMonitor\<lparr>state := (state exMonitor)\<lparr>contractsFound := 1\<rparr>,
                auditQueue := [\<lparr>txHash = ''0xt11'', contractAddress = addrImpl, deployer = ''0xdeployer'',
                       blockNumber = 11, timestamp = 1700000000, bytecodeSize = 2\<rparr>],
                scanned := [11], stopRequested := True\<rparr>"
    by (simp add: processBlock_def exChain_def exBlock_def exMonitor_def codeSize_def ex_addr_nonempty)
  have l: "blockLoop exChain 13 11 exMonitor = processBlock exChain 11 exMonitor"
    apply (subst blockLoop.simps)
    apply (simp add: exMonitor_def[THEN arg_cong, of stopRequested])
    apply (subst blockLoop.simps)
    apply (simp add: p)
    done
  show ?thesis
    by (simp add: monitorTick_def exChain_def[THEN arg_cong, of getBlockNumber]
        exMonitor_def[THEN arg_cong, of state] l p)
qed

section \<open>Properties of the rate limiter\<close>

lemma rateLimitWait_cases:
  "rateLimitWait l now =
     (if now - lastRequestTime l \<ge> 1000
      then (l\<lparr>requestsThisSecond := 1, lastRequestTime := now\<rparr>, now)
      else if requestsThisSecond l \<ge> 5
      then (l\<lparr>requestsThisSecond := 1, lastRequestTime := lastRequestTime l + 1000\<rparr>, lastRequestTime l + 1000)
      else (l\<lparr>requestsThisSecond := requestsThisSecond l + 1\<rparr>, now))"
  by (simp add: rateLimitWait_def rateLimitEnter_def rateLimitResume_def Let_def)

lemma rateLimitWait_go:
  "snd (rateLimitWait l now) =
     (if now - lastRequestTime l < 1000 \<and> requestsThisSecond l \<ge> 5
      then lastRequestTime l + 1000 else now)"
  by (simp add: rateLimitWait_cases)

lemma callsInTurn_length: "length (callsInTurn l clock ts) = length ts"
  by (induction ts arbitrary: l clock) (auto split: prod.splits)

lemma callsInTurn_windows_ge:
  "c \<in> set (callsInTurn l clock ts) \<Longrightarrow> lastRequestTime l \<le> fst c"
proof (induction ts arbitrary: l clock)
  case Nil
  then show ?case by simp
next
  case (Cons t ts)
  obtain l1 go where w: "rateLimitWait l (max clock t) = (l1, go)" by (cases "rateLimitWait l (max clock t)")
  have mono: "lastRequestTime l \<le> lastRequestTime l1"
    using w by (auto simp: rateLimitWait_cases split: if_splits)
  from Cons.prems w have "c = (lastRequestTime l1, go) \<or> c \<in> set (callsInTurn l1 go ts)" by simp
  then show ?case using mono Cons.IH[of l1 go] by fastforce
qed

lemma callsInTurn_window_count:
  "length (filter (\<lambda>c. fst c = w) (callsInTurn l clock ts))
     \<le> (if w = lastRequestTime l then 5 - requestsThisSecond l else 5)"
proof (induction ts arbitrary: l clock)
  case Nil
  then show ?case by simp
next
  case (Cons t ts)
  let ?now = "max clock t"
  obtain l1 go where w: "rateLimitWait l ?now = (l1, go)" by (cases "rateLimitWait l ?now")
  have run: "callsInTurn l clock (t # ts) = (lastRequestTime l1, go) # callsInTurn l1 go ts"
    using w by simp
  note IH = Cons.IH[of l1 go]
  consider (reset) "?now - lastRequestTime l \<ge> 1000"
    | (sleep) "?now - lastRequestTime l < 1000" "requestsThisSecond l \<ge> 5"
    | (pass) "?now - lastRequestTime l < 1000" "requestsThisSecond l < 5"
    by linarith
  then show ?case
  proof cases
    case reset
    then have l1: "lastRequestTime l1 = ?now" "requestsThisSecond l1 = 1" "lastRequestTime l < ?now"
      using w by (auto simp: rateLimitWait_cases)
    show ?thesis
    proof (cases "w = lastRequestTime l")
      case True
      have "filter (\<lambda>c. fst c = w) (callsInTurn l1 go ts) = []"
        using callsInTurn_windows_ge[of _ l1 go ts] l1 True by (fastforce simp: filter_empty_conv)
      then show ?thesis unfolding run using l1 True by simp
    next
      case False
      then show ?thesis unfolding run using IH l1 by (auto split: if_splits)
    qed
  next
    case sleep
    then have l1: "lastRequestTime l1 = lastRequestTime l + 1000" "requestsThisSecond l1 = 1"
      using w by (auto simp: rateLimitWait_cases)
    show ?thesis
    proof (cases "w = lastRequestTime l")
      case True
      have "filter (\<lambda>c. fst c = w) (callsInTurn l1 go ts) = []"
        using callsInTurn_windows_ge[of _ l1 go ts] l1 True by (fastforce simp: filter_empty_conv)
      then show ?thesis unfolding run using l1 True by simp
    next
      case False
      then show ?thesis unfolding run using IH l1 by (auto split: if_splits)
    qed
  next
    case pass
    then have l1: "lastRequestTime l1 = lastRequestTime l" "requestsThisSecond l1 = requestsThisSecond l + 1"
      using w by (auto simp: rateLimitWait_cases)
    show ?thesis unfolding run using IH l1 pass by (auto split: if_splits)
  qed
qed

lemma callsInTurn_in_window:
  "lastRequestTime l \<le> clock \<Longrightarrow> c \<in> set (callsInTurn l clock ts)
     \<Longrightarrow> fst c \<le> snd c \<and> snd c < fst c + 1000"
proof (induction ts arbitrary: l clock)
  case Nil
  then show ?case by simp
next
  case (Cons t ts)
  obtain l1 go where w: "rateLimitWait l (max clock t) = (l1, go)" by (cases "rateLimitWait l (max clock t)")
  have here: "lastRequestTime l1 \<le> go \<and> go < lastRequestTime l1 + 1000"
    using w Cons.prems(1) by (auto simp: rateLimitWait_cases split: if_splits)
  from Cons.prems(2) w have "c = (lastRequestTime l1, go) \<or> c \<in> set (callsInTurn l1 go ts)" by simp
  then show ?case using here Cons.IH[of l1 go] by auto
qed

lemma seven_at_once:
  "1000 \<le> now \<Longrightarrow> snd (callsAtOnce limiterInit now 7) = [now, now, now, now, now, now + 1000, now + 1000]"
  by (simp add: callsAtOnce_def eval_nat_numeral rateLimitEnter_def limiterInit_def Let_def)

text \<open>
  C9 (as amended). The limiter counts calls in fixed one-second windows, each starting
  at \<open>lastRequestTime\<close>, the time of the call that opened it, not in rolling windows. For
  calls made one after another, starting from the initial limiter: no call is dropped;
  at most 5 calls are counted in any one window, and each of them proceeds within less
  than a second of the window's start; a call that finds its window exhausted is delayed
  until exactly one second after the window's start, and any other call proceeds at
  once. Given 7 calls issued at the same instant, calls 1 to 5 proceed at that instant
  and calls 6 and 7 one second later.
\<close>

theorem limiter_counts_fixed_windows:
  assumes "0 \<le> clock" and "1000 \<le> now"
  shows "length (callsInTurn limiterInit clock ts) = length ts
       \<and> (\<forall>w. length (filter (\<lambda>c. fst c = w) (callsInTurn limiterInit clock ts)) \<le> 5)
       \<and> (\<forall>c \<in> set (callsInTurn limiterInit clock ts). fst c \<le> snd c \<and> snd c < fst c + 1000)
       \<and> snd (rateLimitWait l t) =
            (if t - lastRequestTime l < 1000 \<and> requestsThisSecond l \<ge> 5
             then lastRequestTime l + 1000 else t)
       \<and> snd (callsAtOnce limiterInit now 7) = [now, now, now, now, now, now + 1000, now + 1000]"
proof -
  have a: "\<forall>w. length (filter (\<lambda>c. fst c = w) (callsInTurn limiterInit clock ts)) \<le> 5"
  proof
    fix w
    show "length (filter (\<lambda>c. fst c = w) (callsInTurn limiterInit clock ts)) \<le> 5"
      using callsInTurn_window_count[of w limiterInit clock ts] by (simp split: if_splits)
  qed
  have b: "\<forall>c \<in> set (callsInTurn limiterInit clock ts). fst c \<le> snd c \<and> snd c < fst c + 1000"
    using callsInTurn_in_window[of limiterInit clock _ ts] assms(1) by (simp add: limiterInit_def)
  show ?thesis using a b callsInTurn_length rateLimitWait_go seven_at_once[OF assms(2)] by blast
qed


text \<open>
  One call opens a window at 10000; four calls follow at 10999, and two more at 11000,
  where the next window opens. No call of this run sleeps, so it runs the same whether
  the calls come from one caller or from several.
\<close>

lemma ex_calls_in_turn:
  "callsInTurn limiterInit 0 [10000, 10999, 10999, 10999, 10999, 11000, 11000] =
     [(10000, 10000), (10000, 10999), (10000, 10999), (10000, 10999), (10000, 10999),
      (11000, 11000), (11000, 11000)]"
  by code_simp

text \<open>
  C9 as stated fails: in that run six calls proceed within the two milliseconds 10999
  and 11000.
\<close>

theorem six_calls_within_two_milliseconds:
  "\<not> rollingWindowOk (map snd (callsInTurn limiterInit 0 [10000, 10999, 10999, 10999, 10999, 11000, 11000]))"
  unfolding ex_calls_in_turn by (simp add: rollingWindowOk_def)

text \<open>
  The run above, a call that finds its window exhausted at 10400, and the seven calls of
  the specification's scenario.
\<close>

theorem limiter_counts_fixed_windows_witness:
  "(0::int) \<le> 0 \<and> (1000::int) \<le> 10000
   \<and> length (callsInTurn limiterInit 0 [10000, 10999, 10999, 10999, 10999, 11000, 11000]) = 7
   \<and> length (filter (\<lambda>c. fst c = 10000) (callsInTurn limiterInit 0 [10000, 10999, 10999, 10999, 10999, 11000, 11000])) \<le> 5
   \<and> snd (rateLimitWait \<lparr>lastRequestTime = 10000, requestsThisSecond = 5\<rparr> 10400) = 11000
   \<and> snd (callsAtOnce limiterInit 10000 7) = [10000, 10000, 10000, 10000, 10000, 11000, 11000]"
proof -
  have h1: "(0::int) \<le> 0" and h2: "(1000::int) \<le> 10000" by simp_all
  note t = limiter_counts_fixed_windows[OF h1 h2,
      of "[10000, 10999, 10999, 10999, 10999, 11000, 11000]"
         "\<lparr>lastRequestTime = 10000, requestsThisSecond = 5\<rparr>" 10400]
  show ?thesis using t by (simp del: callsInTurn.simps)
qed

text \<open>
  Eleven calls issued at the same instant: the six sleepers each reset the counter when
  they wake, and all six proceed at the same millisecond.
\<close>

lemma eleven_at_once:
  "snd (callsAtOnce limiterInit 10000 11) =
     [10000, 10000, 10000, 10000, 10000, 11000, 11000, 11000, 11000, 11000, 11000]"
  by code_simp

section \<open>Properties of the chunker\<close>

subsection \<open>Lines\<close>

lemma splitNL_nonempty: "splitNL s \<noteq> []"
  by (induction s) (auto split: list.splits)

lemma splitNL_append_NL: "splitNL (a @ NL # b) = splitNL a @ splitNL b"
proof (induction a)
  case Nil
  show ?case by simp
next
  case (Cons c a)
  obtain l ls where "splitNL a = l # ls" using splitNL_nonempty[of a] by (cases "splitNL a") auto
  then show ?case using Cons by simp
qed

lemma splitNL_no_NL: "NL \<notin> set s \<Longrightarrow> splitNL s = [s]"
  by (induction s) auto

lemma splitNL_lines_no_NL: "l \<in> set (splitNL s) \<Longrightarrow> NL \<notin> set l"
proof (induction s arbitrary: l)
  case Nil
  then show ?case by simp
next
  case (Cons c s)
  obtain x xs where x: "splitNL s = x # xs" using splitNL_nonempty[of s] by (cases "splitNL s") auto
  show ?case
  proof (cases "c = NL")
    case True
    then show ?thesis using Cons by auto
  next
    case False
    then have "l = c # x \<or> l \<in> set xs" using Cons.prems x by simp
    then show ?thesis using Cons.IH[of x] Cons.IH[of l] x False by auto
  qed
qed

lemma nonEmptyLines_Nil: "nonEmptyLines [] = []"
  by (simp add: nonEmptyLines_def)

lemma nonEmptyLines_line: "NL \<notin> set l \<Longrightarrow> nonEmptyLines l = filter (\<lambda>l. l \<noteq> []) [l]"
  by (simp add: nonEmptyLines_def splitNL_no_NL)

lemma nonEmptyLines_append_NL: "nonEmptyLines (a @ NL # b) = nonEmptyLines a @ nonEmptyLines b"
  by (simp add: nonEmptyLines_def splitNL_append_NL)

lemma nonEmptyLines_NL: "nonEmptyLines (NL # b) = nonEmptyLines b"
  by (simp add: nonEmptyLines_def)

lemma nonEmptyLines_append_at_NL:
  "b = [] \<or> hd b = NL \<Longrightarrow> nonEmptyLines (a @ b) = nonEmptyLines a @ nonEmptyLines b"
  by (cases b) (auto simp: nonEmptyLines_Nil nonEmptyLines_append_NL nonEmptyLines_NL)

subsection \<open>Packing lines\<close>

lemma packLines_lines:
  assumes "\<forall>l \<in> set ls. NL \<notin> set l"
  shows "concat (map nonEmptyLines (packLines m chunks cur ls)) =
           concat (map nonEmptyLines chunks) @ nonEmptyLines cur @ filter (\<lambda>l. l \<noteq> []) ls"
  using assms
proof (induction ls arbitrary: chunks cur)
  case Nil
  then show ?case by (simp add: nonEmptyLines_Nil)
next
  case (Cons a ls)
  have a: "nonEmptyLines a = filter (\<lambda>l. l \<noteq> []) [a]" using Cons.prems by (simp add: nonEmptyLines_line)
  have rest: "\<forall>l \<in> set ls. NL \<notin> set l" using Cons.prems by simp
  show ?case
  proof (cases "length cur + length a + 1 > m \<and> length cur > 0")
    case True
    then show ?thesis using Cons.IH[OF rest, of "chunks @ [cur]" a] a by (simp add: Let_def)
  next
    case False
    show ?thesis
    proof (cases "cur = []")
      case True
      then show ?thesis using False Cons.IH[OF rest, of chunks a] a
        by (simp add: Let_def nonEmptyLines_Nil)
    next
      case nonempty: False
      have "nonEmptyLines (cur @ NL # a) = nonEmptyLines cur @ filter (\<lambda>l. l \<noteq> []) [a]"
        using a by (simp add: nonEmptyLines_append_NL)
      then show ?thesis using False nonempty Cons.IH[OF rest, of chunks "cur @ NL # a"]
        by (simp add: Let_def)
    qed
  qed
qed

lemma splitByLines_lines: "concat (map nonEmptyLines (splitByLines s m)) = nonEmptyLines s"
  using packLines_lines[of "splitNL s" m "[]" "[]"] splitNL_lines_no_NL[of _ s]
  by (auto simp: splitByLines_def nonEmptyLines_Nil nonEmptyLines_def)

lemma packLines_bound:
  assumes "\<forall>l \<in> set ls. length l \<le> m" and "length cur \<le> m" and "\<forall>c \<in> set chunks. length c \<le> m"
  shows "\<forall>c \<in> set (packLines m chunks cur ls). length c \<le> m"
  using assms
proof (induction ls arbitrary: chunks cur)
  case Nil
  then show ?case by auto
next
  case (Cons a ls)
  have rest: "\<forall>l \<in> set ls. length l \<le> m" and a: "length a \<le> m" using Cons.prems(1) by simp_all
  show ?case
  proof (cases "length cur + length a + 1 > m \<and> length cur > 0")
    case True
    then have step: "packLines m chunks cur (a # ls) = packLines m (chunks @ [cur]) a ls"
      by (simp add: Let_def)
    have "\<forall>c \<in> set (chunks @ [cur]). length c \<le> m" using Cons.prems(2,3) by simp
    from Cons.IH[OF rest a this] show ?thesis unfolding step .
  next
    case False
    then have step: "packLines m chunks cur (a # ls) =
        packLines m chunks (cur @ (if cur \<noteq> [] then [NL] else []) @ a) ls"
      by (auto simp: Let_def)
    have "length (cur @ (if cur \<noteq> [] then [NL] else []) @ a) \<le> m" using False a by auto
    from Cons.IH[OF rest this Cons.prems(3)] show ?thesis unfolding step .
  qed
qed

lemma splitByLines_bound:
  "\<forall>l \<in> set (splitNL s). length l \<le> m \<Longrightarrow> \<forall>c \<in> set (splitByLines s m). length c \<le> m"
  using packLines_bound[of "splitNL s" m "[]" "[]"] by (simp add: splitByLines_def)

subsection \<open>The scan for declarations\<close>

lemma declGroup_brace: "declGroup s = Some r \<Longrightarrow> CHR ''{'' \<in> set s"
proof -
  have nb: "\<And>t r. nameToBrace t = Some r \<Longrightarrow> CHR ''{'' \<in> set t"
  proof -
    fix t r assume "nameToBrace t = Some r"
    then obtain c cs b where t: "t = c # cs" and d: "dropWhile (\<lambda>x. x \<noteq> CHR ''{'') cs = b # r"
      by (auto simp: nameToBrace_def split: list.splits if_splits)
    from d have "b = CHR ''{''" using hd_dropWhile[of "\<lambda>x. x \<noteq> CHR ''{''" cs] by auto
    moreover have "b \<in> set cs" using d set_dropWhileD[of b "\<lambda>x. x \<noteq> CHR ''{''" cs] by simp
    ultimately show "CHR ''{'' \<in> set t" using t by simp
  qed
  have sp: "\<And>t r. spaces1 t = Some r \<Longrightarrow> set r \<subseteq> set t"
    by (auto simp: spaces1_def split: if_splits dest: set_dropWhileD)
  have kw: "\<And>t r. declKeyword t = Some r \<Longrightarrow> set r \<subseteq> set t"
    by (auto simp: declKeyword_def split: if_splits dest: in_set_dropD)
  have dh: "\<And>t r. declHead t = Some r \<Longrightarrow> CHR ''{'' \<in> set t"
  proof -
    fix t r assume "declHead t = Some r"
    then obtain r1 r2 where "declKeyword t = Some r1" "spaces1 r1 = Some r2" "nameToBrace r2 = Some r"
      by (auto simp: declHead_def Option.bind_eq_Some_conv)
    then show "CHR ''{'' \<in> set t" using kw sp nb by blast
  qed
  assume g: "declGroup s = Some r"
  show ?thesis
  proof (cases "declHead s")
    case (Some x)
    then show ?thesis using dh by blast
  next
    case None
    then obtain r1 where a: "startsWith s ''abstract''" "spaces1 (drop 8 s) = Some r1" "declHead r1 = Some r"
      using g by (auto simp: declGroup_def split: option.splits if_splits)
    then have "CHR ''{'' \<in> set r1" using dh by blast
    moreover have "set r1 \<subseteq> set s" using sp[OF a(2)] by (auto dest: in_set_dropD)
    ultimately show ?thesis by blast
  qed
qed

lemma matchAt_brace: "matchAt p s = Some n \<Longrightarrow> CHR ''{'' \<in> set s"
  by (auto simp: matchAt_def split: option.splits list.splits if_splits dest: declGroup_brace)

lemma matchAt_start: "matchAt p s = Some n \<Longrightarrow> p = 0 \<or> (s \<noteq> [] \<and> hd s = NL)"
  by (auto simp: matchAt_def split: option.splits list.splits if_splits)

lemma matchAll_no_brace: "CHR ''{'' \<notin> set s \<Longrightarrow> matchAll p lastIndex s = []"
proof (induction s arbitrary: p lastIndex)
  case Nil
  show ?case by simp
next
  case (Cons c s)
  have "matchAt p (c # s) = None" using matchAt_brace[of p "c # s"] Cons.prems by (cases "matchAt p (c # s)") auto
  then show ?case using Cons by simp
qed

lemma matchAll_index:
  "i \<in> set (matchAll p lastIndex s) \<Longrightarrow> p \<le> i \<and> i < p + length s \<and> (i = 0 \<or> s ! (i - p) = NL)"
proof (induction s arbitrary: p lastIndex)
  case Nil
  then show ?case by simp
next
  case (Cons c s)
  show ?case
  proof (cases "i = p \<and> \<not> p < lastIndex \<and> matchAt p (c # s) \<noteq> None")
    case True
    then show ?thesis using matchAt_start[of p "c # s"] by auto
  next
    case False
    then have "\<exists>li. i \<in> set (matchAll (Suc p) li s)"
      using Cons.prems by (auto split: if_splits option.splits)
    then obtain li where "i \<in> set (matchAll (Suc p) li s)" by blast
    from Cons.IH[OF this] have ih: "Suc p \<le> i" "i < Suc p + length s" "i = 0 \<or> s ! (i - Suc p) = NL"
      by auto
    have "(c # s) ! (i - p) = s ! (i - Suc p)" using ih(1) by (simp add: nth_Cons')
    then show ?thesis using ih by auto
  qed
qed

lemma matchAll_sorted: "sorted_wrt (<) (matchAll p lastIndex s)"
proof (induction s arbitrary: p lastIndex)
  case Nil
  show ?case by simp
next
  case (Cons c s)
  have "\<And>li i. i \<in> set (matchAll (Suc p) li s) \<Longrightarrow> p < i" using matchAll_index by fastforce
  then show ?case using Cons.IH by (auto split: option.splits)
qed

lemma contractMatches_index:
  "i \<in> set (contractMatches code) \<Longrightarrow> i < length code \<and> (i = 0 \<or> code ! i = NL)"
  using matchAll_index[of i 0 0 code] by (simp add: contractMatches_def)

lemma contractMatches_sorted: "sorted_wrt (<) (contractMatches code)"
  by (simp add: contractMatches_def matchAll_sorted)

subsection \<open>The lines of a unit\<close>

lemma splitNL_take_subset:
  assumes "b \<ge> length s \<or> s ! b = NL"
  shows "set (splitNL (take b s)) \<subseteq> set (splitNL s)"
proof (cases "b \<ge> length s")
  case True
  then show ?thesis by simp
next
  case False
  then have "s = take b s @ NL # drop (Suc b) s" using assms id_take_nth_drop[of b s] by simp
  then have "splitNL s = splitNL (take b s) @ splitNL (drop (Suc b) s)"
    using splitNL_append_NL[of "take b s" "drop (Suc b) s"] by simp
  then show ?thesis by simp
qed

lemma splitNL_drop_subset:
  assumes "a = 0 \<or> a \<ge> length s \<or> s ! a = NL"
  shows "set (splitNL (drop a s)) \<subseteq> insert [] (set (splitNL s))"
proof -
  consider "a = 0" | "a \<ge> length s" | "a < length s" "s ! a = NL" using assms by linarith
  then show ?thesis
  proof cases
    case 1
    then show ?thesis by auto
  next
    case 2
    then show ?thesis by simp
  next
    case 3
    then have s: "s = take a s @ NL # drop (Suc a) s" using id_take_nth_drop[of a s] by simp
    have d: "drop a s = NL # drop (Suc a) s" using 3 Cons_nth_drop_Suc[of a s] by simp
    have "splitNL s = splitNL (take a s) @ splitNL (drop (Suc a) s)"
      using splitNL_append_NL[of "take a s" "drop (Suc a) s"] s by simp
    then show ?thesis unfolding d by auto
  qed
qed

lemma slice_lines_subset:
  assumes "a = 0 \<or> (a < length s \<and> s ! a = NL)" and "b \<ge> length s \<or> s ! b = NL"
  shows "set (splitNL (slice s a b)) \<subseteq> insert [] (set (splitNL s))"
proof -
  have sl: "slice s a b = drop a (take b s)" by (simp add: slice_def drop_take)
  have "a = 0 \<or> a \<ge> length (take b s) \<or> take b s ! a = NL"
    using assms(1) by (cases "a < b") auto
  from splitNL_drop_subset[OF this] splitNL_take_subset[OF assms(2)] show ?thesis
    unfolding sl by blast
qed

subsection \<open>The chunks of the units\<close>

lemma matchAll_brace:
  "i \<in> set (matchAll p lastIndex s) \<Longrightarrow> CHR ''{'' \<in> set (drop (i - p) s)"
proof (induction s arbitrary: p lastIndex)
  case Nil
  then show ?case by simp
next
  case (Cons c s)
  show ?case
  proof (cases "i = p \<and> \<not> p < lastIndex \<and> matchAt p (c # s) \<noteq> None")
    case True
    then show ?thesis using matchAt_brace[of p "c # s"] by auto
  next
    case False
    then have "\<exists>li. i \<in> set (matchAll (Suc p) li s)"
      using Cons.prems by (auto split: if_splits option.splits)
    then obtain li where m: "i \<in> set (matchAll (Suc p) li s)" by blast
    have "Suc p \<le> i" using matchAll_index[OF m] by simp
    then have "drop (i - p) (c # s) = drop (i - Suc p) s" by (simp add: drop_Cons')
    then show ?thesis using Cons.IH[OF m] by simp
  qed
qed

lemma nonEmptyLines_empty: "nonEmptyLines t = [] \<Longrightarrow> set t \<subseteq> {NL}"
proof (induction t)
  case Nil
  show ?case by simp
next
  case (Cons c t)
  show ?case
  proof (cases "c = NL")
    case True
    then show ?thesis using Cons by (simp add: nonEmptyLines_NL)
  next
    case False
    obtain l ls where "splitNL t = l # ls" using splitNL_nonempty[of t] by (cases "splitNL t") auto
    then have "nonEmptyLines (c # t) \<noteq> []" using False by (simp add: nonEmptyLines_def)
    then show ?thesis using Cons.prems by simp
  qed
qed

lemma NL_not_brace: "NL \<noteq> CHR ''{''"
  by (simp add: NL_def)

lemma contractChunks_lines:
  assumes "ms \<noteq> []" and "sorted_wrt (<) ms"
    and "\<forall>i \<in> set ms. i < length code \<and> (i = 0 \<or> code ! i = NL)"
  shows "concat (map nonEmptyLines (contractChunks code ms)) = nonEmptyLines (drop (hd ms) code)"
  using assms
proof (induction ms)
  case Nil
  then show ?case by simp
next
  case (Cons start rest)
  let ?endIx = "case rest of [] \<Rightarrow> length code | nxt # _ \<Rightarrow> nxt"
  let ?chunk = "slice code start ?endIx"
  show ?case
  proof (cases rest)
    case Nil
    then show ?thesis by (simp add: slice_def Let_def splitByLines_lines)
  next
    case (Cons nxt more)
    have lt: "start < nxt" "nxt < length code" "code ! nxt = NL"
      using Cons.prems(2,3) Cons by auto
    have ih: "concat (map nonEmptyLines (contractChunks code rest)) = nonEmptyLines (drop nxt code)"
      using Cons.IH Cons.prems(2,3) Cons by simp
    have d: "drop nxt code = NL # drop (Suc nxt) code" using lt Cons_nth_drop_Suc[of nxt code] by simp
    have "drop start code = take (nxt - start) (drop start code) @ drop nxt code"
      using lt(1) append_take_drop_id[of "nxt - start" "drop start code"] by simp
    then have "nonEmptyLines (drop start code) = nonEmptyLines ?chunk @ nonEmptyLines (drop nxt code)"
      using nonEmptyLines_append_at_NL[of "drop nxt code" "take (nxt - start) (drop start code)"] d Cons
      by (simp add: slice_def)
    then show ?thesis using ih Cons by (simp add: Let_def splitByLines_lines)
  qed
qed

lemma contractChunks_bound:
  assumes "\<forall>l \<in> set (splitNL code). length l \<le> MAX_SOURCE_LENGTH" and "sorted_wrt (<) ms"
    and "\<forall>i \<in> set ms. i < length code \<and> (i = 0 \<or> code ! i = NL)"
  shows "\<forall>c \<in> set (contractChunks code ms). length c \<le> MAX_SOURCE_LENGTH"
  using assms(2,3)
proof (induction ms)
  case Nil
  then show ?case by simp
next
  case (Cons start rest)
  let ?endIx = "case rest of [] \<Rightarrow> length code | nxt # _ \<Rightarrow> nxt"
  let ?chunk = "slice code start ?endIx"
  have e: "?endIx \<ge> length code \<or> code ! ?endIx = NL"
    using Cons.prems by (cases rest) auto
  have s: "start = 0 \<or> (start < length code \<and> code ! start = NL)" using Cons.prems(2) by auto
  have "\<forall>l \<in> set (splitNL ?chunk). length l \<le> MAX_SOURCE_LENGTH"
    using slice_lines_subset[OF s e] assms(1) by auto
  then have "\<forall>c \<in> set (splitByLines ?chunk MAX_SOURCE_LENGTH). length c \<le> MAX_SOURCE_LENGTH"
    by (rule splitByLines_bound)
  moreover have "\<forall>c \<in> set (contractChunks code rest). length c \<le> MAX_SOURCE_LENGTH"
    using Cons.IH Cons.prems by simp
  ultimately show ?case by (auto simp: Let_def)
qed

lemma contractChunks_units:
  "\<forall>u \<in> set (contractUnits code ms). length u \<le> MAX_SOURCE_LENGTH
     \<Longrightarrow> contractChunks code ms = contractUnits code ms"
  by (induction ms) (auto simp: Let_def)

lemma contractUnits_length: "length (contractUnits code ms) = length ms"
  by (induction ms) auto

lemma chunkSourceCode_few:
  "length (contractMatches code) \<le> 1 \<Longrightarrow> chunkSourceCode code = splitByLines code MAX_SOURCE_LENGTH"
  by (simp add: chunkSourceCode_def Let_def)

lemma trim_Nil: "trim [] = []"
  by (simp add: trim_def)

lemma chunkSourceCode_many:
  assumes "2 \<le> length (contractMatches code)"
  shows "chunkSourceCode code =
     (if preambleOf code \<noteq> [] \<and> contractChunks code (contractMatches code) \<noteq> []
      then (preambleOf code @ [NL, NL] @ hd (contractChunks code (contractMatches code)))
           # tl (contractChunks code (contractMatches code))
      else contractChunks code (contractMatches code))"
proof -
  have p: "preambleOf code = trim (slice code 0 (hd (contractMatches code)))"
    using assms by (simp add: preambleOf_def splitStart_def)
  have z: "hd (contractMatches code) = 0 \<Longrightarrow> preambleOf code = []"
    unfolding p by (simp add: slice_def trim_Nil)
  have upd: "\<And>xs x. xs \<noteq> [] \<Longrightarrow> xs[0 := x] = x # tl xs"
    by (case_tac xs) auto
  show ?thesis
  proof (cases "hd (contractMatches code) = 0")
    case True
    then show ?thesis using assms z by (simp add: chunkSourceCode_def Let_def)
  next
    case False
    then show ?thesis using assms p
      by (auto simp: chunkSourceCode_def Let_def upd hd_conv_nth)
  qed
qed

subsection \<open>The chunks of a source\<close>

lemma contractMatches_hd:
  assumes "2 \<le> length (contractMatches code)"
  shows "hd (contractMatches code) \<in> set (contractMatches code)"
    and "contractMatches code \<noteq> []"
  using assms by (cases "contractMatches code"; simp)+

lemma contractChunks_nonempty:
  assumes "2 \<le> length (contractMatches code)"
  shows "contractChunks code (contractMatches code) \<noteq> []"
proof
  let ?ms = "contractMatches code"
  assume e: "contractChunks code ?ms = []"
  have "concat (map nonEmptyLines (contractChunks code ?ms)) = nonEmptyLines (drop (hd ?ms) code)"
    using contractChunks_lines[of ?ms code] contractMatches_hd[OF assms] contractMatches_sorted
      contractMatches_index by blast
  then have "nonEmptyLines (drop (hd ?ms) code) = []" using e by simp
  then have "set (drop (hd ?ms) code) \<subseteq> {NL}" by (rule nonEmptyLines_empty)
  moreover have "CHR ''{'' \<in> set (drop (hd ?ms) code)"
    using matchAll_brace[of "hd ?ms" 0 0 code] contractMatches_hd(1)[OF assms]
    by (simp add: contractMatches_def)
  ultimately show False using NL_not_brace by auto
qed

lemma trim_decompose: "s = leadingSpace s @ trim s @ trailingSpace s"
proof -
  let ?t = "dropWhile isSpace s"
  have "trim s @ trailingSpace s = rev (takeWhile isSpace (rev ?t) @ dropWhile isSpace (rev ?t))"
    unfolding trim_def trailingSpace_def by (simp only: rev_append)
  also have "\<dots> = rev (rev ?t)" by (simp only: takeWhile_dropWhile_id)
  finally have "?t = trim s @ trailingSpace s" by simp
  moreover have "s = leadingSpace s @ ?t" by (simp add: leadingSpace_def)
  ultimately show ?thesis by simp
qed

lemma trimmed_space: "list_all isSpace (leadingSpace s)" "list_all isSpace (trailingSpace s)"
  by (auto simp: leadingSpace_def trailingSpace_def list_all_iff dest: set_takeWhileD)

lemma nonEmptyLines_newlines: "list_all (\<lambda>c. c = NL) a \<Longrightarrow> nonEmptyLines a = []"
  by (induction a) (auto simp: nonEmptyLines_Nil nonEmptyLines_NL)

lemma nonEmptyLines_after_newlines: "list_all (\<lambda>c. c = NL) a \<Longrightarrow> nonEmptyLines (a @ b) = nonEmptyLines b"
  by (induction a) (auto simp: nonEmptyLines_NL)

lemma nonEmptyLines_before_newlines: "list_all (\<lambda>c. c = NL) b \<Longrightarrow> nonEmptyLines (a @ b) = nonEmptyLines a"
proof (cases b)
  case Nil
  then show ?thesis by simp
next
  case (Cons c cs)
  assume "list_all (\<lambda>c. c = NL) b"
  then have "c = NL" "list_all (\<lambda>c. c = NL) cs" using Cons by simp_all
  then show ?thesis using Cons nonEmptyLines_newlines[of cs] by (simp add: nonEmptyLines_append_NL)
qed

text \<open>
  C6 (as amended). Read in chunk order, the non-empty lines of the chunks are the
  non-empty lines of the preamble followed by the non-empty lines of the source from
  the first split index on: none of these is lost, none duplicated and none reordered.
  The preamble is the text of the source before that index without the whitespace at
  its two ends; the index is 0, and the preamble empty, when fewer than two declarations
  are found. The source is that leading whitespace, the preamble, that trailing
  whitespace and the rest, in this order, and its non-empty lines are those of its text
  before the index followed by those of its text from the index on. So when the
  whitespace at the two ends of the text before the index is newlines only, and always
  when fewer than two declarations are found, the non-empty lines of the chunks are the
  non-empty lines of the source. Empty lines, the newlines between chunks, and other
  whitespace at the two ends of the text before the first declaration need not be kept.
\<close>

theorem chunks_keep_nonempty_lines:
  "concat (map nonEmptyLines (chunkSourceCode code)) =
      nonEmptyLines (preambleOf code) @ nonEmptyLines (drop (splitStart code) code)
   \<and> code = leadingSpace (take (splitStart code) code) @ preambleOf code
              @ trailingSpace (take (splitStart code) code) @ drop (splitStart code) code
   \<and> list_all isSpace (leadingSpace (take (splitStart code) code))
   \<and> list_all isSpace (trailingSpace (take (splitStart code) code))
   \<and> nonEmptyLines code =
      nonEmptyLines (take (splitStart code) code) @ nonEmptyLines (drop (splitStart code) code)
   \<and> (list_all (\<lambda>c. c = NL) (leadingSpace (take (splitStart code) code))
      \<and> list_all (\<lambda>c. c = NL) (trailingSpace (take (splitStart code) code))
        \<longrightarrow> concat (map nonEmptyLines (chunkSourceCode code)) = nonEmptyLines code)
   \<and> (length (contractMatches code) \<le> 1
        \<longrightarrow> splitStart code = 0
          \<and> concat (map nonEmptyLines (chunkSourceCode code)) = nonEmptyLines code)"
proof -
  let ?k = "splitStart code"
  have pre: "preambleOf code = trim (take ?k code)" by (simp add: preambleOf_def slice_def)
  have dec: "take ?k code = leadingSpace (take ?k code) @ preambleOf code @ trailingSpace (take ?k code)"
    unfolding pre by (rule trim_decompose)
  have whole: "code = leadingSpace (take ?k code) @ preambleOf code
              @ trailingSpace (take ?k code) @ drop ?k code"
    using dec append_take_drop_id[of ?k code] by (metis append.assoc)
  have both: "concat (map nonEmptyLines (chunkSourceCode code)) =
      nonEmptyLines (preambleOf code) @ nonEmptyLines (drop ?k code)
    \<and> nonEmptyLines code = nonEmptyLines (take ?k code) @ nonEmptyLines (drop ?k code)"
  proof (cases "length (contractMatches code) \<le> 1")
    case True
    then have "splitStart code = 0" "preambleOf code = []"
      by (simp_all add: splitStart_def preambleOf_def slice_def trim_Nil)
    then show ?thesis using True
      by (simp add: chunkSourceCode_few splitByLines_lines nonEmptyLines_Nil)
  next
    case False
    then have two: "2 \<le> length (contractMatches code)" by simp
    let ?ms = "contractMatches code"
    let ?chunks = "contractChunks code ?ms"
    let ?h = "hd ?ms"
    have k: "splitStart code = ?h" using False by (simp add: splitStart_def)
    have kin: "?h < length code \<and> (?h = 0 \<or> code ! ?h = NL)"
      using contractMatches_index contractMatches_hd(1)[OF two] by blast
    have lines: "concat (map nonEmptyLines ?chunks) = nonEmptyLines (drop ?h code)"
      using contractChunks_lines[of ?ms code] contractMatches_hd[OF two] contractMatches_sorted
        contractMatches_index by blast
    obtain c cs where ch: "?chunks = c # cs"
      using contractChunks_nonempty[OF two] by (cases ?chunks) auto
    have p: "nonEmptyLines (preambleOf code @ [NL, NL] @ c) = nonEmptyLines (preambleOf code) @ nonEmptyLines c"
      by (simp add: nonEmptyLines_append_NL nonEmptyLines_NL)
    have first: "concat (map nonEmptyLines (chunkSourceCode code)) =
        nonEmptyLines (preambleOf code) @ nonEmptyLines (drop ?h code)"
      using lines p unfolding chunkSourceCode_many[OF two] ch
      by (simp add: nonEmptyLines_Nil)
    have "drop ?h code = [] \<or> hd (drop ?h code) = NL \<or> ?h = 0"
      using kin by (auto simp: hd_drop_conv_nth)
    then have second: "nonEmptyLines code = nonEmptyLines (take ?h code) @ nonEmptyLines (drop ?h code)"
      using nonEmptyLines_append_at_NL[of "drop ?h code" "take ?h code"]
      by (auto simp: nonEmptyLines_Nil)
    show ?thesis using first second unfolding k by simp
  qed
  have same: "list_all (\<lambda>c. c = NL) (leadingSpace (take ?k code))
      \<and> list_all (\<lambda>c. c = NL) (trailingSpace (take ?k code))
        \<longrightarrow> concat (map nonEmptyLines (chunkSourceCode code)) = nonEmptyLines code"
  proof
    assume a: "list_all (\<lambda>c. c = NL) (leadingSpace (take ?k code))
      \<and> list_all (\<lambda>c. c = NL) (trailingSpace (take ?k code))"
    have "nonEmptyLines (take ?k code)
        = nonEmptyLines (leadingSpace (take ?k code) @ (preambleOf code @ trailingSpace (take ?k code)))"
      using dec by simp
    also have "\<dots> = nonEmptyLines (preambleOf code @ trailingSpace (take ?k code))"
      using a by (simp only: nonEmptyLines_after_newlines)
    also have "\<dots> = nonEmptyLines (preambleOf code)"
      using a by (simp only: nonEmptyLines_before_newlines)
    finally show "concat (map nonEmptyLines (chunkSourceCode code)) = nonEmptyLines code"
      using both by simp
  qed
  have few: "length (contractMatches code) \<le> 1
        \<longrightarrow> splitStart code = 0
          \<and> concat (map nonEmptyLines (chunkSourceCode code)) = nonEmptyLines code"
  proof
    assume "length (contractMatches code) \<le> 1"
    then have z: "splitStart code = 0" by (simp add: splitStart_def)
    then have "list_all (\<lambda>c. c = NL) (leadingSpace (take ?k code))
      \<and> list_all (\<lambda>c. c = NL) (trailingSpace (take ?k code))"
      by (simp add: leadingSpace_def trailingSpace_def)
    then show "splitStart code = 0
          \<and> concat (map nonEmptyLines (chunkSourceCode code)) = nonEmptyLines code"
      using z same by blast
  qed
  show ?thesis using both whole trimmed_space[of "take ?k code"] same few by blast
qed

text \<open>
  What the checks of the chunker bound. For a source none of whose lines is longer than
  16,000 characters, every chunk is at most 16,000 characters long before the preamble
  is prepended: every chunk after the first is, and the first chunk is at most 16,000
  characters long plus, when a preamble is prepended to it, the preamble and the two
  newlines that follow it. When the source has two or more declarations and each unit is
  at most 16,000 characters long, the chunker returns one chunk per declaration, in
  order: the units, the first of them after the preamble and two newlines when the
  preamble is not empty.
\<close>

lemma chunk_lengths:
  assumes "\<forall>l \<in> set (splitNL code). length l \<le> MAX_SOURCE_LENGTH"
  shows "(\<forall>c \<in> set (tl (chunkSourceCode code)). length c \<le> MAX_SOURCE_LENGTH)
       \<and> (chunkSourceCode code \<noteq> [] \<longrightarrow>
            length (hd (chunkSourceCode code))
              \<le> MAX_SOURCE_LENGTH + (if preambleOf code = [] then 0 else length (preambleOf code) + 2))
       \<and> (2 \<le> length (contractMatches code)
            \<and> (\<forall>u \<in> set (contractUnits code (contractMatches code)). length u \<le> MAX_SOURCE_LENGTH)
          \<longrightarrow> length (chunkSourceCode code) = length (contractMatches code)
              \<and> tl (chunkSourceCode code) = tl (contractUnits code (contractMatches code))
              \<and> hd (chunkSourceCode code) =
                  (if preambleOf code = [] then hd (contractUnits code (contractMatches code))
                   else preambleOf code @ [NL, NL] @ hd (contractUnits code (contractMatches code))))"
proof (cases "length (contractMatches code) \<le> 1")
  case True
  have all: "\<forall>c \<in> set (chunkSourceCode code). length c \<le> MAX_SOURCE_LENGTH"
    using splitByLines_bound[OF assms] True by (simp add: chunkSourceCode_few)
  have "\<forall>c \<in> set (tl (chunkSourceCode code)). length c \<le> MAX_SOURCE_LENGTH"
    using all by (cases "chunkSourceCode code") auto
  moreover have "chunkSourceCode code \<noteq> [] \<longrightarrow> length (hd (chunkSourceCode code)) \<le> MAX_SOURCE_LENGTH"
    using all by (cases "chunkSourceCode code") auto
  ultimately show ?thesis using True by auto
next
  case False
  then have two: "2 \<le> length (contractMatches code)" by simp
  let ?ms = "contractMatches code"
  let ?chunks = "contractChunks code ?ms"
  have bound: "\<forall>c \<in> set ?chunks. length c \<le> MAX_SOURCE_LENGTH"
    using contractChunks_bound[OF assms contractMatches_sorted, of code] contractMatches_index by blast
  obtain c cs where ch: "?chunks = c # cs"
    using contractChunks_nonempty[OF two] by (cases ?chunks) auto
  have form: "chunkSourceCode code =
      (if preambleOf code = [] then c else preambleOf code @ [NL, NL] @ c) # cs"
    unfolding chunkSourceCode_many[OF two] ch by simp
  have p1: "\<forall>c \<in> set (tl (chunkSourceCode code)). length c \<le> MAX_SOURCE_LENGTH"
    using bound form ch by simp
  have p2: "length (hd (chunkSourceCode code))
      \<le> MAX_SOURCE_LENGTH + (if preambleOf code = [] then 0 else length (preambleOf code) + 2)"
    using bound form ch by simp
  have p3: "(\<forall>u \<in> set (contractUnits code ?ms). length u \<le> MAX_SOURCE_LENGTH)
          \<longrightarrow> length (chunkSourceCode code) = length ?ms
              \<and> tl (chunkSourceCode code) = tl (contractUnits code ?ms)
              \<and> hd (chunkSourceCode code) =
                  (if preambleOf code = [] then hd (contractUnits code ?ms)
                   else preambleOf code @ [NL, NL] @ hd (contractUnits code ?ms))"
  proof
    assume "\<forall>u \<in> set (contractUnits code ?ms). length u \<le> MAX_SOURCE_LENGTH"
    then have u: "contractUnits code ?ms = c # cs" using contractChunks_units[of code ?ms] ch by simp
    have "length (c # cs) = length ?ms" using contractUnits_length[of code ?ms] u by simp
    then show "length (chunkSourceCode code) = length ?ms
              \<and> tl (chunkSourceCode code) = tl (contractUnits code ?ms)
              \<and> hd (chunkSourceCode code) =
                  (if preambleOf code = [] then hd (contractUnits code ?ms)
                   else preambleOf code @ [NL, NL] @ hd (contractUnits code ?ms))"
      unfolding form u by simp
  qed
  show ?thesis using p1 p2 p3 by blast
qed

subsection \<open>Sources without a declaration\<close>

lemma ex_chars: "CHR ''a'' \<noteq> NL" "CHR ''b'' \<noteq> NL" "CHR ''c'' \<noteq> NL"
  by (simp_all add: NL_def)

lemma splitByLines_one_line:
  "NL \<notin> set s \<Longrightarrow> s \<noteq> [] \<Longrightarrow> splitByLines s m = [s]"
  by (simp add: splitByLines_def splitNL_no_NL Let_def)

text \<open>
  A line is never split: a source that is one line of 16,001 characters comes back as
  one chunk of 16,001 characters.
\<close>

lemma one_long_line_is_one_long_chunk:
  "length exOneLine = 16001 \<and> chunkSourceCode exOneLine = [exOneLine]
   \<and> \<not> list_all (\<lambda>c. length c \<le> 16000) (chunkSourceCode exOneLine)"
proof -
  have l: "length exOneLine = 16001" by (simp add: exOneLine_def)
  have "contractMatches exOneLine = []"
    by (simp add: contractMatches_def exOneLine_def matchAll_no_brace)
  moreover have "NL \<notin> set exOneLine" "exOneLine \<noteq> []" using ex_chars by (auto simp: exOneLine_def)
  ultimately have c: "chunkSourceCode exOneLine = [exOneLine]"
    by (simp add: chunkSourceCode_few splitByLines_one_line)
  show ?thesis using l c by simp
qed

lemma exTwoLines_chunks:
  "chunkSourceCode exTwoLines = [replicate 10000 CHR ''a'', replicate 10000 CHR ''b'']"
proof -
  have m: "contractMatches exTwoLines = []"
    by (simp add: contractMatches_def exTwoLines_def matchAll_no_brace NL_def)
  have s: "splitNL exTwoLines = [replicate 10000 CHR ''a'', replicate 10000 CHR ''b'']"
    using splitNL_append_NL[of "replicate 10000 CHR ''a''" "replicate 10000 CHR ''b''"] ex_chars
    by (simp add: exTwoLines_def splitNL_no_NL)
  show ?thesis
    by (simp add: chunkSourceCode_few m splitByLines_def s MAX_SOURCE_LENGTH_def Let_def)
qed

lemma exGap_lines: "splitNL exGap = [replicate 16000 CHR ''a'', [], replicate 5 CHR ''b'']"
proof -
  have e: "exGap = replicate 16000 CHR ''a'' @ NL # ([] @ NL # replicate 5 CHR ''b'')"
    by (simp add: exGap_def)
  show ?thesis unfolding e splitNL_append_NL using ex_chars by (simp add: splitNL_no_NL)
qed

lemma exGap_chunks: "chunkSourceCode exGap = [replicate 16000 CHR ''a'', replicate 5 CHR ''b'']"
proof -
  have m: "contractMatches exGap = []"
    by (simp add: contractMatches_def exGap_def matchAll_no_brace NL_def)
  show ?thesis
    by (simp add: chunkSourceCode_few m splitByLines_def exGap_lines MAX_SOURCE_LENGTH_def Let_def)
qed

subsection \<open>Sources of contracts\<close>

lemma matchAll_skip:
  "\<forall>c \<in> set xs. c \<noteq> NL \<Longrightarrow> 0 < p \<Longrightarrow> matchAll p lastIndex (xs @ rest) = matchAll (p + length xs) lastIndex rest"
proof (induction xs arbitrary: p)
  case Nil
  show ?case by simp
next
  case (Cons c xs)
  have "matchAt p (c # xs @ rest) = None" using Cons.prems by (simp add: matchAt_def)
  then show ?case using Cons.IH[of "Suc p"] Cons.prems by simp
qed

lemma matchAt_unit:
  assumes "isWord x" and "0 < p"
  shows "matchAt p (exUnit x n c @ rest) = Some 13"
proof -
  have k: "declKeyword (''contract '' @ [x] @ '' {'' @ replicate n c @ ''}'' @ rest)
      = Some ('' '' @ [x] @ '' {'' @ replicate n c @ ''}'' @ rest)"
    by (simp add: declKeyword_def startsWith_def)
  have s: "spaces1 ('' '' @ [x] @ '' {'' @ replicate n c @ ''}'' @ rest)
      = Some ([x] @ '' {'' @ replicate n c @ ''}'' @ rest)"
    using assms(1) by (auto simp: spaces1_def isSpace_def isWord_def Let_def)
  have b: "nameToBrace ([x] @ '' {'' @ replicate n c @ ''}'' @ rest) = Some (replicate n c @ ''}'' @ rest)"
    using assms(1) by (simp add: nameToBrace_def)
  have h: "declHead (''contract '' @ [x] @ '' {'' @ replicate n c @ ''}'' @ rest)
      = Some (replicate n c @ ''}'' @ rest)"
    by (simp add: declHead_def k s b del: append.simps)
  have g: "declGroup (''contract '' @ [x] @ '' {'' @ replicate n c @ ''}'' @ rest)
      = Some (replicate n c @ ''}'' @ rest)"
    unfolding declGroup_def h by (simp add: startsWith_def)
  show ?thesis using assms(2) g by (simp add: matchAt_def exUnit_def)
qed

lemma matchAll_unit:
  assumes "isWord x" and "x \<noteq> NL" and "c \<noteq> NL" and "0 < p" and "lastIndex \<le> p"
  shows "matchAll p lastIndex (exUnit x n c @ rest) = p # matchAll (p + 14 + n) (p + 13) rest"
proof -
  let ?body = "''contract '' @ [x] @ '' {'' @ replicate n c @ ''}''"
  have u: "exUnit x n c @ rest = NL # (?body @ rest)" by (simp add: exUnit_def)
  have m: "matchAt p (NL # (?body @ rest)) = Some 13"
    using matchAt_unit[OF assms(1,4), of n c rest] u by simp
  have nn: "\<forall>c \<in> set ?body. c \<noteq> NL" using assms(2,3) by (auto simp: NL_def)
  have len: "length ?body = 13 + n" by simp
  have "matchAll p lastIndex (NL # (?body @ rest)) = p # matchAll (Suc p) (p + 13) (?body @ rest)"
    using m assms(5) by (simp del: append.simps)
  also have "matchAll (Suc p) (p + 13) (?body @ rest) = matchAll (Suc p + length ?body) (p + 13) rest"
    using matchAll_skip[OF nn, of "Suc p" "p + 13" rest] by simp
  finally show ?thesis unfolding u len by (simp add: add.commute add.left_commute)
qed

lemma matchAll_no_match_here:
  "matchAt p (c # cs) = None \<Longrightarrow> lastIndex \<le> p \<Longrightarrow> matchAll p lastIndex (c # cs) = matchAll (Suc p) lastIndex cs"
  by simp

lemma exUnit_length: "length (exUnit x n c) = 14 + n"
  by (simp add: exUnit_def)

lemma matchAll_units:
  assumes "\<forall>u \<in> set us. isWord (fst u) \<and> fst u \<noteq> NL \<and> snd (snd u) \<noteq> NL"
    and "0 < p" and "lastIndex \<le> p"
  shows "matchAll p lastIndex (concat (exUnits us)) = exOffsets p us"
  using assms
proof (induction us arbitrary: p lastIndex)
  case Nil
  show ?case by (simp add: exUnits_def)
next
  case (Cons u us)
  obtain x n c where u: "u = (x, n, c)" by (cases u) auto
  have ok: "isWord x" "x \<noteq> NL" "c \<noteq> NL" using Cons.prems(1) u by simp_all
  have rest: "\<forall>u \<in> set us. isWord (fst u) \<and> fst u \<noteq> NL \<and> snd (snd u) \<noteq> NL"
    using Cons.prems(1) by simp
  have e: "concat (exUnits ((x, n, c) # us)) = exUnit x n c @ concat (exUnits us)"
    by (simp add: exUnits_def)
  have "matchAll p lastIndex (exUnit x n c @ concat (exUnits us))
      = p # matchAll (p + 14 + n) (p + 13) (concat (exUnits us))"
    by (rule matchAll_unit[OF ok Cons.prems(2,3)])
  also have "matchAll (p + 14 + n) (p + 13) (concat (exUnits us)) = exOffsets (p + 14 + n) us"
    by (rule Cons.IH[OF rest]) simp_all
  finally show ?case unfolding e u by simp
qed

lemma declGroup_newline: "declGroup (NL # s) = None"
  by (simp add: declGroup_def declHead_def declKeyword_def startsWith_def NL_def)

lemma matchAll_newlines:
  "0 < p \<Longrightarrow> rest = [] \<or> hd rest = NL
     \<Longrightarrow> matchAll p 0 (replicate g NL @ rest) = matchAll (p + g) 0 rest"
proof (induction g arbitrary: p)
  case 0
  show ?case by simp
next
  case (Suc g)
  have "replicate g NL @ rest = [] \<or> hd (replicate g NL @ rest) = NL"
    using Suc.prems(2) by (cases g) auto
  then have "declGroup (replicate g NL @ rest) = None"
    using declGroup_newline[of "tl (replicate g NL @ rest)"]
    by (cases "replicate g NL @ rest")
       (auto simp: declGroup_def declHead_def declKeyword_def startsWith_def)
  then have "matchAt p (NL # replicate g NL @ rest) = None"
    using Suc.prems(1) by (simp add: matchAt_def)
  then show ?case using Suc.IH[of "Suc p"] Suc.prems by simp
qed

text \<open>
  In the lemmas below the text before the contracts is one line that no declaration
  starts, followed by \<open>g\<close> newlines.
\<close>

lemma exSource_matches:
  assumes "\<forall>u \<in> set us. isWord (fst u) \<and> fst u \<noteq> NL \<and> snd (snd u) \<noteq> NL"
    and "pre = body @ replicate g NL" and "body \<noteq> []" and "NL \<notin> set body"
    and "\<And>rest. matchAt 0 (body @ rest) = None"
  shows "contractMatches (exSource pre us) = exOffsets (length pre) us"
proof -
  obtain ch r where p: "body = ch # r" using assms(3) by (cases body) auto
  have nn: "\<forall>c \<in> set r. c \<noteq> NL" using assms(4) p by auto
  let ?U = "concat (exUnits us)"
  have starts: "?U = [] \<or> hd ?U = NL"
  proof (cases us)
    case Nil
    then show ?thesis by (simp add: exUnits_def)
  next
    case (Cons u vs)
    then show ?thesis by (cases u) (simp add: exUnits_def exUnit_def)
  qed
  have "matchAt 0 (ch # (r @ replicate g NL @ ?U)) = None"
    using assms(5)[of "replicate g NL @ ?U"] p by simp
  then have "matchAll 0 0 (ch # (r @ replicate g NL @ ?U)) = matchAll (Suc 0) 0 (r @ replicate g NL @ ?U)"
    by (rule matchAll_no_match_here) simp
  also have "\<dots> = matchAll (Suc 0 + length r) 0 (replicate g NL @ ?U)"
    by (rule matchAll_skip[OF nn]) simp
  also have "\<dots> = matchAll (Suc 0 + length r + g) 0 ?U"
    by (rule matchAll_newlines[OF _ starts]) simp
  also have "\<dots> = exOffsets (Suc 0 + length r + g) us"
    by (rule matchAll_units[OF assms(1)]) simp_all
  finally show ?thesis by (simp add: contractMatches_def exSource_def p assms(2))
qed

lemma slice_middle:
  "length a = i \<Longrightarrow> length b = j - i \<Longrightarrow> slice (a @ b @ c) i j = b"
  by (simp add: slice_def)

lemma exOffsets_units:
  "code = a @ concat (exUnits us) \<Longrightarrow> length a = p \<Longrightarrow> contractUnits code (exOffsets p us) = exUnits us"
proof (induction us arbitrary: a p)
  case Nil
  show ?case by (simp add: exUnits_def)
next
  case (Cons u us)
  obtain x n c where u: "u = (x, n, c)" by (cases u) auto
  have code: "code = a @ exUnit x n c @ concat (exUnits us)"
    using Cons.prems(1) by (simp add: exUnits_def u)
  have len: "length code = p + 14 + n + length (concat (exUnits us))"
    unfolding code using Cons.prems(2) by (simp add: exUnit_length)
  have stop: "(case exOffsets (p + 14 + n) us of [] \<Rightarrow> length code | nxt # _ \<Rightarrow> nxt) = p + 14 + n"
  proof (cases us)
    case Nil
    then show ?thesis using len by (simp add: exUnits_def)
  next
    case (Cons v vs)
    then show ?thesis by (cases v) simp
  qed
  have cut: "slice code p (p + 14 + n) = exUnit x n c"
    unfolding code by (rule slice_middle) (simp_all add: Cons.prems(2) exUnit_length)
  have "contractUnits code (exOffsets (p + 14 + n) us) = exUnits us"
    by (rule Cons.IH[of "a @ exUnit x n c"]) (simp_all add: code Cons.prems(2) exUnit_length)
  then show ?case unfolding u by (simp add: stop cut exUnits_def)
qed

lemma exSource_lines:
  assumes "\<forall>u \<in> set us. fst u \<noteq> NL \<and> snd (snd u) \<noteq> NL" and "NL \<notin> set a"
  shows "splitNL (a @ concat (exUnits us)) = a # map tl (exUnits us)"
  using assms
proof (induction us arbitrary: a)
  case Nil
  then show ?case by (simp add: exUnits_def splitNL_no_NL)
next
  case (Cons u us)
  obtain x n c where u: "u = (x, n, c)" by (cases u) auto
  let ?body = "''contract '' @ [x] @ '' {'' @ replicate n c @ ''}''"
  have nb: "NL \<notin> set ?body" using Cons.prems(1) u by (auto simp: NL_def)
  have rest: "\<forall>u \<in> set us. fst u \<noteq> NL \<and> snd (snd u) \<noteq> NL" using Cons.prems(1) by simp
  have e: "a @ concat (exUnits (u # us)) = a @ NL # (?body @ concat (exUnits us))"
    by (simp add: exUnits_def u exUnit_def)
  have t: "tl (exUnit x n c) = ?body" by (simp add: exUnit_def)
  show ?case
    unfolding e splitNL_append_NL Cons.IH[OF rest nb]
    using Cons.prems(2) by (simp add: splitNL_no_NL exUnits_def u t)
qed

text \<open>
  The chunks of a source of two or more contracts, each within the limit, after a text
  that is more than whitespace.
\<close>

lemma exSource_chunks:
  assumes "\<forall>u \<in> set us. isWord (fst u) \<and> fst u \<noteq> NL \<and> snd (snd u) \<noteq> NL"
    and "pre = body @ replicate g NL" and "body \<noteq> []" and "NL \<notin> set body"
    and "\<And>rest. matchAt 0 (body @ rest) = None"
    and "2 \<le> length us" and "\<forall>u \<in> set us. fst (snd u) + 14 \<le> MAX_SOURCE_LENGTH"
    and "trim pre \<noteq> []"
  shows "contractMatches (exSource pre us) = exOffsets (length pre) us"
    and "length (contractMatches (exSource pre us)) = length us"
    and "contractUnits (exSource pre us) (contractMatches (exSource pre us)) = exUnits us"
    and "splitStart (exSource pre us) = length pre"
    and "preambleOf (exSource pre us) = trim pre"
    and "chunkSourceCode (exSource pre us) = (trim pre @ [NL, NL] @ hd (exUnits us)) # tl (exUnits us)"
proof -
  let ?code = "exSource pre us"
  show m: "contractMatches ?code = exOffsets (length pre) us" by (rule exSource_matches[OF assms(1-5)])
  have ol: "\<And>p vs. length (exOffsets p vs) = length vs"
  proof -
    fix p vs show "length (exOffsets p vs) = length vs"
      by (induction vs arbitrary: p) auto
  qed
  show n: "length (contractMatches ?code) = length us" unfolding m by (rule ol)
  show units: "contractUnits ?code (contractMatches ?code) = exUnits us"
    unfolding m by (rule exOffsets_units) (simp_all add: exSource_def)
  obtain u1 rest where us: "us = u1 # rest" using assms(6) by (cases us) auto
  have hd: "hd (contractMatches ?code) = length pre" using m us by (cases u1) auto
  show k: "splitStart ?code = length pre" using n assms(6) hd by (simp add: splitStart_def)
  show p: "preambleOf ?code = trim pre" by (simp add: preambleOf_def k slice_def) (simp add: exSource_def)
  have two: "2 \<le> length (contractMatches ?code)" using n assms(6) by simp
  have small: "\<forall>u \<in> set (contractUnits ?code (contractMatches ?code)). length u \<le> MAX_SOURCE_LENGTH"
    unfolding units using assms(7) by (auto simp: exUnits_def exUnit_length)
  have chunks: "contractChunks ?code (contractMatches ?code) = exUnits us"
    using contractChunks_units[OF small] units by simp
  have ne: "exUnits us \<noteq> []" using us by (simp add: exUnits_def)
  show "chunkSourceCode ?code = (trim pre @ [NL, NL] @ hd (exUnits us)) # tl (exUnits us)"
    unfolding chunkSourceCode_many[OF two] chunks p using assms(8) ne by simp
qed

lemma ex_isWord: "isWord CHR ''A''" "isWord CHR ''B''" "isWord CHR ''C''"
  "CHR ''A'' \<noteq> NL" "CHR ''B'' \<noteq> NL" "CHR ''C'' \<noteq> NL"
  by (simp_all add: isWord_def NL_def)

lemma exPragma_facts:
  "exPragma \<noteq> []" "NL \<notin> set exPragma" "matchAt 0 (exPragma @ rest) = None"
  "trim exPragma = exPragma" "length exPragma = 23"
  "leadingSpace exPragma = []" "trailingSpace exPragma = []"
  by (simp_all add: exPragma_def NL_def matchAt_def declGroup_def declHead_def declKeyword_def
      startsWith_def trim_def isSpace_def leadingSpace_def trailingSpace_def)

lemma exPragma_blank:
  "trim (exPragma @ [NL]) = exPragma" "length (exPragma @ [NL]) = 24"
  "leadingSpace (exPragma @ [NL]) = []" "trailingSpace (exPragma @ [NL]) = [NL]"
  by (simp_all add: exPragma_def NL_def trim_def isSpace_def leadingSpace_def trailingSpace_def)

lemma no_gap: "pre = pre @ replicate 0 NL" "exPragma @ [NL] = exPragma @ replicate 1 NL"
  by simp_all

lemma exImport_facts:
  "''  import x;  '' \<noteq> []" "NL \<notin> set ''  import x;  ''"
  "matchAt 0 (''  import x;  '' @ rest) = None"
  "trim ''  import x;  '' = ''import x;''"
  by (simp_all add: NL_def matchAt_def declGroup_def declHead_def declKeyword_def
      startsWith_def trim_def isSpace_def)

lemma ex_units_ok:
  "\<forall>u \<in> set [(CHR ''A'', n1, CHR ''a''), (CHR ''B'', n2, CHR ''b''), (CHR ''C'', n3, CHR ''c'')].
     isWord (fst u) \<and> fst u \<noteq> NL \<and> snd (snd u) \<noteq> NL"
  "\<forall>u \<in> set [(CHR ''A'', n1, CHR ''a''), (CHR ''B'', n2, CHR ''b'')].
     isWord (fst u) \<and> fst u \<noteq> NL \<and> snd (snd u) \<noteq> NL"
  by (simp_all add: ex_isWord ex_chars)

lemma ex_units_ok':
  "\<forall>u \<in> set [(CHR ''A'', n1, CHR ''a''), (CHR ''B'', n2, CHR ''b''), (CHR ''C'', n3, CHR ''c'')].
     fst u \<noteq> NL \<and> snd (snd u) \<noteq> NL"
  "\<forall>u \<in> set [(CHR ''A'', n1, CHR ''a''), (CHR ''B'', n2, CHR ''b'')].
     fst u \<noteq> NL \<and> snd (snd u) \<noteq> NL"
  by (simp_all add: ex_isWord ex_chars)

lemma exThree_length: "length exThree = 20000"
  by (simp add: exThree_def exSource_def exUnits_def exUnit_length exPragma_facts(5))

lemma exThree_matches: "length (contractMatches exThree) = 3"
  unfolding exThree_def
  by (subst exSource_chunks(2)[OF ex_units_ok(1) no_gap(1) exPragma_facts(1,2,3)])
     (simp_all add: MAX_SOURCE_LENGTH_def exPragma_facts(4,1))

lemma exThree_chunks:
  "chunkSourceCode exThree =
     [exPragma @ [NL, NL] @ exUnit CHR ''A'' 6000 CHR ''a'', exUnit CHR ''B'' 6000 CHR ''b'',
      exUnit CHR ''C'' 7935 CHR ''c'']"
  unfolding exThree_def
  by (subst exSource_chunks(6)[OF ex_units_ok(1) no_gap(1) exPragma_facts(1,2,3)])
     (simp_all add: MAX_SOURCE_LENGTH_def exPragma_facts(4,1) exUnits_def)

text \<open>
  The scenario of the specification with units of 6,014, 6,014 and 7,949 characters: the
  chunker returns three chunks, each at most 16,000 characters long, and the first
  begins with the preamble.
\<close>

lemma exThree_within_limit:
  "length exThree = 20000 \<and> length (contractMatches exThree) = 3
   \<and> map length (chunkSourceCode exThree) = [6039, 6014, 7949]
   \<and> take 25 (hd (chunkSourceCode exThree)) = ''pragma solidity ^0.8.0;'' @ [NL, NL]"
  by (simp add: exThree_length exThree_matches exThree_chunks exUnit_length exPragma_facts(5))
     (simp add: exPragma_def)

lemma exBlank_start: "splitStart exBlank = 24"
  unfolding exBlank_def
  by (subst exSource_chunks(4)[OF ex_units_ok(2) no_gap(2) exPragma_facts(1,2,3)])
     (simp_all add: MAX_SOURCE_LENGTH_def exPragma_blank exPragma_facts(1,5))

lemma exBlank_lines:
  "splitNL exBlank =
     [exPragma, [], tl (exUnit CHR ''A'' 9000 CHR ''a''), tl (exUnit CHR ''B'' 9000 CHR ''b'')]"
proof -
  let ?us = "[(CHR ''A'', 9000, CHR ''a''), (CHR ''B'', 9000, CHR ''b'')]"
  have e: "exBlank = exPragma @ NL # ([] @ concat (exUnits ?us))"
    by (simp add: exBlank_def exSource_def)
  have p: "splitNL exPragma = [exPragma]" by (rule splitNL_no_NL) (rule exPragma_facts(2))
  have u: "splitNL ([] @ concat (exUnits ?us)) = [] # map tl (exUnits ?us)"
    by (rule exSource_lines[OF ex_units_ok'(2)]) simp
  show ?thesis unfolding e splitNL_append_NL p u by (simp add: exUnits_def)
qed

text \<open>
  The source of two contracts after the pragma line and an empty line: the text before
  the first declaration ends with a newline, which is all the whitespace at its ends,
  and the non-empty lines of the chunks are the three non-empty lines of the source.
  The source of two lines, with no declaration: the non-empty lines of the chunks are
  its two lines.
\<close>

theorem chunks_keep_nonempty_lines_witness:
  "take (splitStart exBlank) exBlank = exPragma @ [NL]
   \<and> leadingSpace (take (splitStart exBlank) exBlank) = []
   \<and> trailingSpace (take (splitStart exBlank) exBlank) = [NL]
   \<and> list_all (\<lambda>c. c = NL) (leadingSpace (take (splitStart exBlank) exBlank))
   \<and> list_all (\<lambda>c. c = NL) (trailingSpace (take (splitStart exBlank) exBlank))
   \<and> concat (map nonEmptyLines (chunkSourceCode exBlank)) = nonEmptyLines exBlank
   \<and> nonEmptyLines exBlank =
       [exPragma, tl (exUnit CHR ''A'' 9000 CHR ''a''), tl (exUnit CHR ''B'' 9000 CHR ''b'')]
   \<and> length (contractMatches exTwoLines) \<le> 1
   \<and> concat (map nonEmptyLines (chunkSourceCode exTwoLines)) = nonEmptyLines exTwoLines
   \<and> nonEmptyLines exTwoLines = [replicate 10000 CHR ''a'', replicate 10000 CHR ''b'']"
proof -
  have t: "take (splitStart exBlank) exBlank = exPragma @ [NL]"
    unfolding exBlank_start by (simp add: exBlank_def exSource_def exPragma_facts(5))
  have s1: "leadingSpace (take (splitStart exBlank) exBlank) = []"
    "trailingSpace (take (splitStart exBlank) exBlank) = [NL]"
    unfolding t by (rule exPragma_blank)+
  have h1: "list_all (\<lambda>c. c = NL) (leadingSpace (take (splitStart exBlank) exBlank))
      \<and> list_all (\<lambda>c. c = NL) (trailingSpace (take (splitStart exBlank) exBlank))"
    unfolding s1 by simp
  have g1: "concat (map nonEmptyLines (chunkSourceCode exBlank)) = nonEmptyLines exBlank"
    using chunks_keep_nonempty_lines[of exBlank] h1 by blast
  have l1: "nonEmptyLines exBlank =
       [exPragma, tl (exUnit CHR ''A'' 9000 CHR ''a''), tl (exUnit CHR ''B'' 9000 CHR ''b'')]"
    by (simp add: nonEmptyLines_def exBlank_lines exPragma_facts(1)) (simp add: exUnit_def)
  have h2: "length (contractMatches exTwoLines) \<le> 1"
    by (simp add: contractMatches_def exTwoLines_def matchAll_no_brace NL_def)
  have g2: "concat (map nonEmptyLines (chunkSourceCode exTwoLines)) = nonEmptyLines exTwoLines"
    using chunks_keep_nonempty_lines[of exTwoLines] h2 by blast
  have s: "splitNL exTwoLines = [replicate 10000 CHR ''a'', replicate 10000 CHR ''b'']"
    using splitNL_append_NL[of "replicate 10000 CHR ''a''" "replicate 10000 CHR ''b''"] ex_chars
    by (simp add: exTwoLines_def splitNL_no_NL)
  have l2: "nonEmptyLines exTwoLines = [replicate 10000 CHR ''a'', replicate 10000 CHR ''b'']"
    by (simp add: nonEmptyLines_def s)
  show ?thesis using t s1 h1 g1 l1 h2 g2 l2 by blast
qed

lemma exSpaced_chunks:
  "chunkSourceCode exSpaced =
     [''import x;'' @ [NL, NL] @ exUnit CHR ''A'' 9000 CHR ''a'', exUnit CHR ''B'' 9000 CHR ''b'']"
  unfolding exSpaced_def
  by (subst exSource_chunks(6)[OF ex_units_ok(2) no_gap(1) exImport_facts(1,2,3)])
     (simp_all add: MAX_SOURCE_LENGTH_def exImport_facts(4) exUnits_def)

lemma exSpaced_lines:
  "splitNL exSpaced =
     [''  import x;  '', tl (exUnit CHR ''A'' 9000 CHR ''a''), tl (exUnit CHR ''B'' 9000 CHR ''b'')]"
  unfolding exSpaced_def exSource_def
  by (subst exSource_lines[OF ex_units_ok'(2) exImport_facts(2)]) (simp add: exUnits_def)

lemma splitNL_two_NL: "splitNL (a @ [NL, NL] @ u) = splitNL a @ [[]] @ splitNL u"
proof -
  have "a @ [NL, NL] @ u = a @ NL # ([] @ NL # u)" by simp
  then show ?thesis
    using splitNL_append_NL[of a "[] @ NL # u"] splitNL_append_NL[of "[]" u] by simp
qed

lemma exUnit_lines: "x \<noteq> NL \<Longrightarrow> c \<noteq> NL \<Longrightarrow> splitNL (exUnit x n c) = [[], tl (exUnit x n c)]"
proof -
  assume a: "x \<noteq> NL" "c \<noteq> NL"
  have n: "NL \<notin> set (tl (exUnit x n c))" using a by (auto simp: exUnit_def NL_def)
  have "exUnit x n c = [] @ NL # tl (exUnit x n c)" by (simp add: exUnit_def)
  then have "splitNL (exUnit x n c) = splitNL [] @ splitNL (tl (exUnit x n c))"
    using splitNL_append_NL[of "[]" "tl (exUnit x n c)"] by simp
  then show ?thesis using n by (simp add: splitNL_no_NL)
qed

text \<open>
  C6 as stated fails, in three ways. The two lines of 10,000 characters go to two
  chunks, and the newline between them is in neither: the chunks concatenated are not
  the source. The empty line after the line of 16,000 characters is in no chunk: the
  chunks joined by newlines are not the source either, and a line of the source is
  lost. The import line of the source of two contracts, which begins and ends with two
  spaces, is a line of no chunk: the first chunk begins with the line trimmed.
\<close>

theorem chunks_lose_newlines_empty_lines_and_outer_space:
  "chunkSourceCode exTwoLines = [replicate 10000 CHR ''a'', replicate 10000 CHR ''b'']
   \<and> concat (chunkSourceCode exTwoLines) \<noteq> exTwoLines
   \<and> splitNL exGap = [replicate 16000 CHR ''a'', [], replicate 5 CHR ''b'']
   \<and> chunkSourceCode exGap = [replicate 16000 CHR ''a'', replicate 5 CHR ''b'']
   \<and> joinWith [NL] (chunkSourceCode exGap) \<noteq> exGap
   \<and> concat (map splitNL (chunkSourceCode exGap)) \<noteq> splitNL exGap
   \<and> splitNL exSpaced =
       [''  import x;  '', tl (exUnit CHR ''A'' 9000 CHR ''a''), tl (exUnit CHR ''B'' 9000 CHR ''b'')]
   \<and> concat (map splitNL (chunkSourceCode exSpaced)) =
       [''import x;'', [], [], tl (exUnit CHR ''A'' 9000 CHR ''a''), [], tl (exUnit CHR ''B'' 9000 CHR ''b'')]
   \<and> ''  import x;  '' \<notin> set (concat (map splitNL (chunkSourceCode exSpaced)))"
proof -
  have "length (concat (chunkSourceCode exTwoLines)) = 20000" unfolding exTwoLines_chunks by simp
  moreover have "length exTwoLines = 20001" by (simp add: exTwoLines_def)
  ultimately have g1: "concat (chunkSourceCode exTwoLines) \<noteq> exTwoLines" by auto
  have "length (joinWith [NL] (chunkSourceCode exGap)) = 16006" unfolding exGap_chunks by simp
  moreover have "length exGap = 16007" by (simp add: exGap_def)
  ultimately have g2: "joinWith [NL] (chunkSourceCode exGap) \<noteq> exGap" by auto
  have "length (concat (map splitNL (chunkSourceCode exGap))) = 2"
    unfolding exGap_chunks using ex_chars by (simp add: splitNL_no_NL)
  then have g3: "concat (map splitNL (chunkSourceCode exGap)) \<noteq> splitNL exGap"
    unfolding exGap_lines by auto
  have first: "splitNL (''import x;'' @ [NL, NL] @ exUnit CHR ''A'' 9000 CHR ''a'')
      = [''import x;'', [], [], tl (exUnit CHR ''A'' 9000 CHR ''a'')]"
  proof -
    have n: "splitNL ''import x;'' = [''import x;'']"
      by (rule splitNL_no_NL) (simp add: NL_def)
    have "splitNL (''import x;'' @ [NL, NL] @ exUnit CHR ''A'' 9000 CHR ''a'')
        = splitNL ''import x;'' @ [[]] @ splitNL (exUnit CHR ''A'' 9000 CHR ''a'')"
      by (rule splitNL_two_NL)
    then show ?thesis unfolding n exUnit_lines[OF ex_isWord(4) ex_chars(1)] by simp
  qed
  have two: "\<And>x y. concat (map splitNL [x, y]) = splitNL x @ splitNL y" by simp
  have g4: "concat (map splitNL (chunkSourceCode exSpaced)) =
       [''import x;'', [], [], tl (exUnit CHR ''A'' 9000 CHR ''a''), [], tl (exUnit CHR ''B'' 9000 CHR ''b'')]"
    unfolding exSpaced_chunks two first exUnit_lines[OF ex_isWord(5) ex_chars(2)] by simp
  have g5: "''  import x;  '' \<notin> set (concat (map splitNL (chunkSourceCode exSpaced)))"
    unfolding g4 by (simp add: exUnit_def)
  show ?thesis using exTwoLines_chunks g1 exGap_lines exGap_chunks g2 g3 exSpaced_lines g4 g5 by blast
qed

lemma exLong_chunks:
  "chunkSourceCode exLong =
     [exPragma @ [NL, NL] @ exUnit CHR ''A'' 15976 CHR ''a'', exUnit CHR ''B'' 1979 CHR ''b'',
      exUnit CHR ''C'' 1980 CHR ''c'']"
  unfolding exLong_def
  by (subst exSource_chunks(6)[OF ex_units_ok(1) no_gap(1) exPragma_facts(1,2,3)])
     (simp_all add: MAX_SOURCE_LENGTH_def exPragma_facts(4,1) exUnits_def)

lemma exLong_units:
  "contractUnits exLong (contractMatches exLong) =
     [exUnit CHR ''A'' 15976 CHR ''a'', exUnit CHR ''B'' 1979 CHR ''b'', exUnit CHR ''C'' 1980 CHR ''c'']"
  unfolding exLong_def
  by (subst exSource_chunks(3)[OF ex_units_ok(1) no_gap(1) exPragma_facts(1,2,3)])
     (simp_all add: MAX_SOURCE_LENGTH_def exPragma_facts(4,1) exUnits_def)

lemma exLong_matches: "length (contractMatches exLong) = 3"
  unfolding exLong_def
  by (subst exSource_chunks(2)[OF ex_units_ok(1) no_gap(1) exPragma_facts(1,2,3)])
     (simp_all add: MAX_SOURCE_LENGTH_def exPragma_facts(4,1))

lemma exLong_lines:
  "splitNL exLong =
     [exPragma, tl (exUnit CHR ''A'' 15976 CHR ''a''), tl (exUnit CHR ''B'' 1979 CHR ''b''),
      tl (exUnit CHR ''C'' 1980 CHR ''c'')]"
  unfolding exLong_def exSource_def
  by (subst exSource_lines[OF ex_units_ok'(1) exPragma_facts(2)]) (simp add: exUnits_def)

text \<open>
  C3. A source of 20,000 characters with three contract declarations, no line of which
  is longer than 16,000 characters. The chunker cuts it at the declarations into three
  units of 15,990, 1,993 and 1,994 characters, each within the limit that it checks at
  the cut; then it prepends the preamble of 23 characters and two newlines to the first
  chunk, with no check. It returns three chunks, the first beginning with the preamble,
  but the first chunk is 16,015 characters long, where the claim has every chunk at
  most 16,000 characters long.
\<close>

theorem preamble_pushes_first_chunk_over_limit:
  "length exLong = 20000 \<and> length (contractMatches exLong) = 3
   \<and> list_all (\<lambda>l. length l \<le> 16000) (splitNL exLong)
   \<and> map length (contractUnits exLong (contractMatches exLong)) = [15990, 1993, 1994]
   \<and> map length (chunkSourceCode exLong) = [16015, 1993, 1994]
   \<and> take 25 (hd (chunkSourceCode exLong)) = ''pragma solidity ^0.8.0;'' @ [NL, NL]
   \<and> \<not> list_all (\<lambda>c. length c \<le> 16000) (chunkSourceCode exLong)"
proof -
  have l: "length exLong = 20000"
    by (simp add: exLong_def exSource_def exUnits_def exUnit_length exPragma_facts(5))
  have ls: "list_all (\<lambda>l. length l \<le> 16000) (splitNL exLong)"
    unfolding exLong_lines by (simp add: exPragma_facts(5)) (simp add: exUnit_def)
  have us: "map length (contractUnits exLong (contractMatches exLong)) = [15990, 1993, 1994]"
    unfolding exLong_units by (simp add: exUnit_length)
  have cs: "map length (chunkSourceCode exLong) = [16015, 1993, 1994]"
    unfolding exLong_chunks by (simp add: exUnit_length exPragma_facts(5))
  have p: "take 25 (hd (chunkSourceCode exLong)) = ''pragma solidity ^0.8.0;'' @ [NL, NL]"
    unfolding exLong_chunks by (simp add: exPragma_def)
  have over: "\<not> list_all (\<lambda>c. length c \<le> 16000) (chunkSourceCode exLong)"
  proof
    assume "list_all (\<lambda>c. length c \<le> 16000) (chunkSourceCode exLong)"
    then have "list_all (\<lambda>n. n \<le> 16000) (map length (chunkSourceCode exLong))"
      by (simp add: list_all_iff)
    then show False unfolding cs by simp
  qed
  show ?thesis using l exLong_matches ls us cs p over by blast
qed

end
